theory Spec2Isabelle
  imports Complex_Main "HOL-Library.Char_ord" "HOL-Library.List_Lexorder"
    "HOL-Library.Product_Lexorder" "HOL-Library.Monad_Syntax"
begin

section \<open>Python values (find_meetingpoint.py)\<close>

text \<open>
  Python ints are \<open>int\<close>. Text is a list of characters with code points below 256.
  \<open>None\<close> of an option is a missing value, or a call that raises, as said at each place.
\<close>

datatype py_error = KeyError | IndexError | TypeError | ValueError

subsection \<open>Identifiers\<close>

text \<open>
  A cell of an id column as \<open>read_csv\<close> delivers it; no column is read with a
  \<open>dtype\<close>. A column of numbers is numeric (an integer and a float of the same value are
  the same key, and True and False are 1 and 0), a column with other text holds strings,
  and an empty cell is NaN. All NaN cells are taken to be one object.
\<close>

datatype ident = IdNum rat | IdStr string | IdNaN

text \<open>Truth value, as in \<open>if fr and to\<close>.\<close>

fun truthy :: "ident \<Rightarrow> bool" where
  "truthy (IdNum x) = (x \<noteq> 0)"
| "truthy (IdStr s) = (s \<noteq> [])"
| "truthy IdNaN = True"

text \<open>
  \<open>==\<close> on two identifiers. Membership in a set or dict is HOL equality: identity or
  \<open>==\<close>.
\<close>

definition py_eq :: "ident \<Rightarrow> ident \<Rightarrow> bool" where
  "py_eq a b = (a = b \<and> a \<noteq> IdNaN)"


text \<open>
  A total order on identifiers that agrees with \<open><\<close> among numbers and among strings.
\<close>

fun id_key :: "ident \<Rightarrow> nat \<times> rat \<times> string" where
  "id_key (IdNum x) = (0, x, [])"
| "id_key (IdStr s) = (1, 0, s)"
| "id_key IdNaN = (2, 0, [])"

fun is_num :: "ident \<Rightarrow> bool" where
  "is_num (IdNum x) = True"
| "is_num _ = False"

fun is_str :: "ident \<Rightarrow> bool" where
  "is_str (IdStr s) = True"
| "is_str _ = False"

subsection \<open>The machine\<close>

text \<open>
  What the interpreter and pandas compute and the source does not define: float64
  arithmetic and the \<open>math\<close> functions (\<open>None\<close> where the call raises), the limit on
  the digits of a string that \<open>int\<close> converts, and the value an int has after it was
  stored in a column with a missing value (\<open>col_int m col v\<close> for the value \<open>v\<close> in the
  column \<open>col\<close>: pandas stores such a column as float64, or as Python objects when an
  int does not fit). The theorems hold for every machine.
\<close>

record 'fl machine =
  fl_lit :: "real \<Rightarrow> 'fl"
  fl_add :: "'fl \<Rightarrow> 'fl \<Rightarrow> 'fl"
  fl_sub :: "'fl \<Rightarrow> 'fl \<Rightarrow> 'fl"
  fl_mul :: "'fl \<Rightarrow> 'fl \<Rightarrow> 'fl"
  fl_div :: "'fl \<Rightarrow> 'fl \<Rightarrow> 'fl option"
  fl_sq :: "'fl \<Rightarrow> 'fl option"
  fl_radians :: "'fl \<Rightarrow> 'fl"
  fl_sin :: "'fl \<Rightarrow> 'fl option"
  fl_cos :: "'fl \<Rightarrow> 'fl option"
  fl_sqrt :: "'fl \<Rightarrow> 'fl option"
  fl_asin :: "'fl \<Rightarrow> 'fl option"
  fl_floor :: "'fl \<Rightarrow> int option"
  fl_ceil :: "'fl \<Rightarrow> int option"
  fl_round :: "'fl \<Rightarrow> int option"
  fl_gt :: "'fl \<Rightarrow> 'fl \<Rightarrow> bool"
  col_int :: "int option list \<Rightarrow> int \<Rightarrow> int"
  max_str_digits :: "nat option"

section \<open>Configuration and primitives\<close>

text \<open>
  The constants of the CONFIG block. The start time and the safety cap are parameters of
  the search, so that other settings can be stated; \<open>T0\<close> is the parsed start time.
\<close>

definition WALK_SPEED_MPS :: "'fl machine \<Rightarrow> 'fl" where
  "WALK_SPEED_MPS m = fl_lit m (13 / 10)"

definition MAX_WALK_TIME_S :: int where
  "MAX_WALK_TIME_S = 10 * 60"

definition MAX_WALK_RADIUS_M :: "'fl machine \<Rightarrow> 'fl" where
  "MAX_WALK_RADIUS_M m = fl_mul m (WALK_SPEED_MPS m) (fl_lit m (of_int MAX_WALK_TIME_S))"

record config =
  MAX_TRIP_TIME_S :: int
  T0 :: int

definition source_config :: config where
  "source_config = \<lparr>MAX_TRIP_TIME_S = 2 * 60 * 60, T0 = 13 * 3600\<rparr>"

subsection \<open>to_seconds\<close>

text \<open>The characters below 256 that \<open>str.strip\<close> removes.\<close>

definition is_space :: "char \<Rightarrow> bool" where
  "is_space c = ((of_char c :: nat) \<in> {9, 10, 11, 12, 13, 28, 29, 30, 31, 32, 133, 160})"

definition strip :: "string \<Rightarrow> string" where
  "strip s = rev (dropWhile is_space (rev (dropWhile is_space s)))"

definition is_digit :: "char \<Rightarrow> bool" where
  "is_digit c = (48 \<le> (of_char c :: nat) \<and> (of_char c :: nat) \<le> 57)"

definition int_of_digits :: "string \<Rightarrow> int" where
  "int_of_digits ds = fold (\<lambda>c n. 10 * n + (int (of_char c) - 48)) ds 0"

fun split_colon :: "string \<Rightarrow> string list" where
  "split_colon [] = [[]]"
| "split_colon (c # cs) =
     (if c = CHR '':'' then [] # split_colon cs
      else (case split_colon cs of [] \<Rightarrow> [[c]] | f # fs \<Rightarrow> (c # f) # fs))"

text \<open>\<open>int(h)\<close> raises ValueError when \<open>h\<close> has more digits than the limit.\<close>

definition too_many_digits :: "'fl machine \<Rightarrow> string \<Rightarrow> bool" where
  "too_many_digits m h = (case max_str_digits m of None \<Rightarrow> False | Some n \<Rightarrow> n < length h)"

text \<open>
  The pattern \<open>^(\d+):(\d{2}):(\d{2})$\<close> on the stripped text: exactly three fields
  separated by colons, all digits, the first non-empty, the other two of length two.
  \<open>Inr None\<close> is the result \<open>None\<close>, \<open>Inl\<close> an exception.
\<close>

definition to_seconds :: "'fl machine \<Rightarrow> string option \<Rightarrow> py_error + int option" where
  "to_seconds m hms =
     (case hms of
        None \<Rightarrow> Inr None
      | Some s \<Rightarrow>
          (case split_colon (strip s) of
             [h, m1, sec] \<Rightarrow>
               if h \<noteq> [] \<and> list_all is_digit h
                  \<and> length m1 = 2 \<and> list_all is_digit m1
                  \<and> length sec = 2 \<and> list_all is_digit sec
               then (if too_many_digits m h then Inl ValueError
                     else Inr (Some (int_of_digits h * 3600 + int_of_digits m1 * 60
                                     + int_of_digits sec)))
               else Inr None
           | _ \<Rightarrow> Inr None))"

subsection \<open>haversine_m\<close>

definition haversine_m :: "'fl machine \<Rightarrow> 'fl \<Rightarrow> 'fl \<Rightarrow> 'fl \<Rightarrow> 'fl \<Rightarrow> 'fl option" where
  "haversine_m m lat1 lon1 lat2 lon2 =
     do {
       let R = fl_lit m 6371000;
       let phi1 = fl_radians m lat1;
       let phi2 = fl_radians m lat2;
       let dphi = fl_radians m (fl_sub m lat2 lat1);
       let dlambda = fl_radians m (fl_sub m lon2 lon1);
       h1 \<leftarrow> fl_div m dphi (fl_lit m 2);
       s1 \<leftarrow> fl_sin m h1;
       s1q \<leftarrow> fl_sq m s1;
       c1 \<leftarrow> fl_cos m phi1;
       c2 \<leftarrow> fl_cos m phi2;
       h2 \<leftarrow> fl_div m dlambda (fl_lit m 2);
       s2 \<leftarrow> fl_sin m h2;
       s2q \<leftarrow> fl_sq m s2;
       let a = fl_add m s1q (fl_mul m (fl_mul m c1 c2) s2q);
       r \<leftarrow> fl_sqrt m a;
       v \<leftarrow> fl_asin m r;
       Some (fl_mul m (fl_mul m (fl_lit m 2) R) v)
     }"

section \<open>The feed\<close>

text \<open>
  The tables as \<open>read_csv\<close> delivers them. A name or description is the cell after
  \<open>astype(str)\<close>, \<open>None\<close> when it is missing; a time is the text of the cell.
\<close>

record 'fl stop_row =
  s_stop_id :: ident
  s_stop_name :: "string option"
  s_stop_desc :: "string option"
  s_stop_lat :: 'fl
  s_stop_lon :: 'fl
  s_parent_station :: ident

record stop_time_row =
  st_trip_id :: ident
  st_stop_id :: ident
  st_stop_sequence :: "rat option"
  st_arrival_time :: "string option"
  st_departure_time :: "string option"

text \<open>
  A row of pathways.txt or transfers.txt: the two stop ids and the time column
  (traversal_time, min_transfer_time) after \<open>int(...)\<close>, \<open>None\<close> when it is missing.
  A table without the time column is a table whose rows all have \<open>None\<close> there.
\<close>

record walk_row =
  w_from_stop_id :: ident
  w_to_stop_id :: ident
  w_time :: "int option"

record 'fl feed =
  stops :: "'fl stop_row list"
  stop_times :: "stop_time_row list"
  pathways :: "walk_row list"
  transfers :: "walk_row list"

subsection \<open>Python dicts built by \<open>dict(zip(keys, values))\<close>\<close>

fun dict_set :: "('k \<times> 'v) list \<Rightarrow> 'k \<Rightarrow> 'v \<Rightarrow> ('k \<times> 'v) list" where
  "dict_set [] k v = [(k, v)]"
| "dict_set ((k', v') # d) k v =
     (if k' = k then (k, v) # d else (k', v') # dict_set d k v)"

definition dict_zip :: "('k \<times> 'v) list \<Rightarrow> ('k \<times> 'v) list" where
  "dict_zip kvs = fold (\<lambda>kv d. dict_set d (fst kv) (snd kv)) kvs []"

definition stop_lat :: "'fl feed \<Rightarrow> (ident \<times> 'fl) list" where
  "stop_lat f = dict_zip (map (\<lambda>r. (s_stop_id r, s_stop_lat r)) (stops f))"

definition stop_lon :: "'fl feed \<Rightarrow> (ident \<times> 'fl) list" where
  "stop_lon f = dict_zip (map (\<lambda>r. (s_stop_id r, s_stop_lon r)) (stops f))"

subsection \<open>Stations and best_name\<close>

text \<open>\<open>fillna("")\<close> on the parent, then the stop's own id where that is \<open>""\<close>.\<close>

definition station_id :: "'fl stop_row \<Rightarrow> ident" where
  "station_id r =
     (if s_parent_station r = IdNaN \<or> s_parent_station r = IdStr []
      then s_stop_id r else s_parent_station r)"

definition station_group :: "'fl feed \<Rightarrow> ident \<Rightarrow> 'fl stop_row list" where
  "station_group f sid = filter (\<lambda>r. station_id r = sid) (stops f)"

text \<open>\<open>dropna\<close> on a column: the values that are present, in row order.\<close>

definition dropna :: "'a option list \<Rightarrow> 'a list" where
  "dropna xs = concat (map (\<lambda>x. case x of None \<Rightarrow> [] | Some v \<Rightarrow> [v]) xs)"

text \<open>
  Modelled from the spec: \<open>value_counts().index[0]\<close> is pandas code, not part of the
  repository; the most frequent value, ties broken by first occurrence.
\<close>

definition value_counts_top :: "string list \<Rightarrow> string" where
  "value_counts_top xs = arg_min_list (\<lambda>x. - int (count_list xs x)) xs"

text \<open>A station name is a text, or the id of the first child.\<close>

datatype name = Name string | Name_of_id ident

definition best_name :: "'fl stop_row list \<Rightarrow> name option" where
  "best_name g =
     (let cands = map strip (dropna (map s_stop_desc g @ map s_stop_name g))
      in if cands \<noteq> [] then Some (Name (value_counts_top cands))
         else (case g of [] \<Rightarrow> None | r # _ \<Rightarrow> Some (Name_of_id (s_stop_id r))))"

text \<open>\<open>groupby\<close> has no group for NaN.\<close>

definition stationid_to_name :: "'fl feed \<Rightarrow> ident \<Rightarrow> name option" where
  "stationid_to_name f sid =
     (if sid \<noteq> IdNaN \<and> sid \<in> station_id ` set (stops f)
      then best_name (station_group f sid) else None)"

subsection \<open>stop_times indexes\<close>

text \<open>
  The value that \<open>apply(to_seconds)\<close> puts into the cell. An exception ends the ingest,
  see \<open>ingest_ok\<close>.
\<close>

definition parsed :: "'fl machine \<Rightarrow> string option \<Rightarrow> int option" where
  "parsed m s = (case to_seconds m s of Inl e \<Rightarrow> None | Inr v \<Rightarrow> v)"

text \<open>
  The columns \<open>dep_sec\<close> and \<open>arr_sec\<close>. A column of ints without a missing value keeps
  its ints; from a column with a missing value, \<open>int(...)\<close> reads the stored value back.
\<close>

definition dep_col :: "'fl machine \<Rightarrow> 'fl feed \<Rightarrow> int option list" where
  "dep_col m f = map (\<lambda>r. parsed m (st_departure_time r)) (stop_times f)"

definition arr_col :: "'fl machine \<Rightarrow> 'fl feed \<Rightarrow> int option list" where
  "arr_col m f = map (\<lambda>r. parsed m (st_arrival_time r)) (stop_times f)"

definition dep_sec :: "'fl machine \<Rightarrow> 'fl feed \<Rightarrow> stop_time_row \<Rightarrow> int option" where
  "dep_sec m f r =
     (if None \<in> set (dep_col m f)
      then map_option (col_int m (dep_col m f)) (parsed m (st_departure_time r))
      else parsed m (st_departure_time r))"

definition arr_sec :: "'fl machine \<Rightarrow> 'fl feed \<Rightarrow> stop_time_row \<Rightarrow> int option" where
  "arr_sec m f r =
     (if None \<in> set (arr_col m f)
      then map_option (col_int m (arr_col m f)) (parsed m (st_arrival_time r))
      else parsed m (st_arrival_time r))"

text \<open>
  \<open>sort_values\<close> puts missing values last; the sort is taken to be stable.
\<close>

definition nan_last :: "'a::zero option \<Rightarrow> bool \<times> 'a" where
  "nan_last x = (case x of None \<Rightarrow> (True, 0) | Some v \<Rightarrow> (False, v))"

definition stop_times_sorted :: "'fl feed \<Rightarrow> stop_time_row list" where
  "stop_times_sorted f =
     sort_key (\<lambda>r. (id_key (st_trip_id r), nan_last (st_stop_sequence r))) (stop_times f)"

text \<open>\<open>groupby\<close> has no group for NaN, and \<open>rows_at_stop.get\<close> gives \<open>None\<close> then.\<close>

definition rows_at_stop :: "'fl machine \<Rightarrow> 'fl feed \<Rightarrow> ident \<Rightarrow> stop_time_row list" where
  "rows_at_stop m f sid =
     filter (\<lambda>r. st_stop_id r = sid \<and> sid \<noteq> IdNaN)
       (sort_key (\<lambda>r. (id_key (st_stop_id r), nan_last (dep_sec m f r)))
          (stop_times_sorted f))"

text \<open>\<open>get_group\<close>; \<open>None\<close> is its KeyError, for NaN.\<close>

definition trip_groups :: "'fl feed \<Rightarrow> ident \<Rightarrow> stop_time_row list option" where
  "trip_groups f tid =
     (if tid = IdNaN then None
      else Some (filter (\<lambda>r. st_trip_id r = tid) (stop_times_sorted f)))"

subsection \<open>Walk edges\<close>

datatype walk_source = PATHWAYS | TRANSFERS | GEO

type_synonym walk_tables =
  "(ident \<Rightarrow> (ident \<times> int \<times> walk_source) list) \<times> (ident \<times> ident) set"

definition add_walk_row :: "walk_source \<Rightarrow> walk_row \<Rightarrow> walk_tables \<Rightarrow> walk_tables" where
  "add_walk_row src r tabs =
     (case tabs of (we, pp) \<Rightarrow>
        (case w_time r of
           None \<Rightarrow> (we, pp)
         | Some ttime \<Rightarrow>
             if truthy (w_from_stop_id r) \<and> truthy (w_to_stop_id r)
             then (we(w_from_stop_id r :=
                        we (w_from_stop_id r) @ [(w_to_stop_id r, max 30 ttime, src)]),
                   insert (w_from_stop_id r, w_to_stop_id r) pp)
             else (we, pp)))"

definition build_walk_tables :: "'fl feed \<Rightarrow> walk_tables" where
  "build_walk_tables f =
     fold (add_walk_row TRANSFERS) (transfers f)
       (fold (add_walk_row PATHWAYS) (pathways f) (\<lambda>_. [], {}))"

definition walk_edges :: "'fl feed \<Rightarrow> ident \<Rightarrow> (ident \<times> int \<times> walk_source) list" where
  "walk_edges f = fst (build_walk_tables f)"

definition provided_pairs :: "'fl feed \<Rightarrow> (ident \<times> ident) set" where
  "provided_pairs f = snd (build_walk_tables f)"

subsection \<open>Spatial index\<close>

definition DLAT :: "'fl machine \<Rightarrow> 'fl" where
  "DLAT m = fl_lit m (4 / 1000)"

definition DLON :: "'fl machine \<Rightarrow> 'fl" where
  "DLON m = fl_lit m (7 / 1000)"

definition cell_for :: "'fl machine \<Rightarrow> 'fl \<Rightarrow> 'fl \<Rightarrow> (int \<times> int) option" where
  "cell_for m lat lon =
     do {
       qa \<leftarrow> fl_div m lat (DLAT m);
       ca \<leftarrow> fl_floor m qa;
       qo \<leftarrow> fl_div m lon (DLON m);
       co \<leftarrow> fl_floor m qo;
       Some (ca, co)
     }"

text \<open>
  The grid is filled in the order of \<open>stop_lat.items()\<close>. Both coordinate dicts have
  the same keys, so the lookup in \<open>stop_lon\<close> always succeeds. \<open>None\<close>: \<open>cell_for\<close>
  raises, which ends the ingest.
\<close>

definition grid_add ::
  "'fl machine \<Rightarrow> 'fl feed \<Rightarrow> ident \<times> 'fl \<Rightarrow> (int \<times> int \<Rightarrow> ident list) option
     \<Rightarrow> (int \<times> int \<Rightarrow> ident list) option" where
  "grid_add m f item go =
     do {
       g \<leftarrow> go;
       lon \<leftarrow> map_of (stop_lon f) (fst item);
       c \<leftarrow> cell_for m (snd item) lon;
       Some (g(c := g c @ [fst item]))
     }"

definition grid :: "'fl machine \<Rightarrow> 'fl feed \<Rightarrow> (int \<times> int \<Rightarrow> ident list) option" where
  "grid m f = fold (grid_add m f) (stop_lat f) (Some (\<lambda>_. []))"

text \<open>
  The body of the innermost loop of \<open>nearby_stops_within_radius\<close>, over the candidates
  of all visited cells in order, with the set \<open>seen\<close> threaded through. \<open>None\<close>: a
  lookup or \<open>haversine_m\<close> raises.
\<close>

fun scan_cands ::
  "'fl machine \<Rightarrow> 'fl feed \<Rightarrow> ident \<Rightarrow> 'fl \<Rightarrow> 'fl \<Rightarrow> ident list \<Rightarrow> ident set
     \<Rightarrow> (ident \<times> 'fl) list option" where
  "scan_cands m f sid lat0 lon0 [] seen = Some []"
| "scan_cands m f sid lat0 lon0 (cand # cs) seen =
     (if cand \<in> seen \<or> py_eq cand sid then scan_cands m f sid lat0 lon0 cs seen
      else do {
        lat \<leftarrow> map_of (stop_lat f) cand;
        lon \<leftarrow> map_of (stop_lon f) cand;
        d \<leftarrow> haversine_m m lat0 lon0 lat lon;
        rest \<leftarrow> scan_cands m f sid lat0 lon0 cs (insert cand seen);
        Some ((cand, d) # rest)
      })"

definition neighbourhood :: "int \<times> int \<Rightarrow> int \<Rightarrow> int \<Rightarrow> (int \<times> int) list" where
  "neighbourhood c0 nlat nlon =
     concat (map (\<lambda>di. map (\<lambda>dj. (fst c0 + di, snd c0 + dj)) [- nlon..nlon]) [- nlat..nlat])"

definition nearby_stops_within_radius ::
  "'fl machine \<Rightarrow> 'fl feed \<Rightarrow> ident \<Rightarrow> 'fl \<Rightarrow> (ident \<times> 'fl) list option" where
  "nearby_stops_within_radius m f sid radius_m =
     do {
       g \<leftarrow> grid m f;
       lat0 \<leftarrow> map_of (stop_lat f) sid;
       lon0 \<leftarrow> map_of (stop_lon f) sid;
       c0 \<leftarrow> cell_for m lat0 lon0;
       let m_per_deg_lat = fl_lit m 111320;
       cl \<leftarrow> fl_cos m (fl_radians m lat0);
       let m_per_deg_lon = fl_mul m (fl_lit m 111320) cl;
       qa \<leftarrow> fl_div m radius_m m_per_deg_lat;
       ra \<leftarrow> fl_div m qa (DLAT m);
       ca \<leftarrow> fl_ceil m ra;
       qo \<leftarrow> fl_div m radius_m m_per_deg_lon;
       ro \<leftarrow> fl_div m qo (DLON m);
       co \<leftarrow> fl_ceil m ro;
       scan_cands m f sid lat0 lon0
         (concat (map g (neighbourhood c0 (ca + 1) (co + 1)))) {}
     }"

text \<open>
  \<open>sort_values\<close> compares the cells of a key column and raises TypeError when the column
  holds both numbers and strings.
\<close>

definition sortable :: "ident list \<Rightarrow> bool" where
  "sortable xs = (\<not> (list_ex is_num xs \<and> list_ex is_str xs))"

text \<open>The ingest completes: no time raises, the sorts succeed and the grid is built.\<close>

definition ingest_ok :: "'fl machine \<Rightarrow> 'fl feed \<Rightarrow> bool" where
  "ingest_ok m f =
     (list_all (\<lambda>r. (case to_seconds m (st_departure_time r) of Inl e \<Rightarrow> False | Inr v \<Rightarrow> True)
                  \<and> (case to_seconds m (st_arrival_time r) of Inl e \<Rightarrow> False | Inr v \<Rightarrow> True))
        (stop_times f)
      \<and> sortable (map st_trip_id (stop_times f))
      \<and> sortable (map st_stop_id (stop_times f))
      \<and> grid m f \<noteq> None)"

section \<open>Search machinery\<close>

datatype mode = START | WALK | RIDE

text \<open>
  The payload dict of a frontier entry. A key that a mode does not set is \<open>None\<close>.
  The route id and the headsign of a ride are looked up for printing only and are left out.
\<close>

record info =
  owner :: string
  mode :: mode
  source :: "walk_source option"
  from_stop :: "ident option"
  to_stop :: ident
  trip_id :: "ident option"
  walk_sec :: "int option"
  wait_sec :: "int option"
  ride_sec :: "int option"
  depart_sec :: int
  arrive_sec :: int
  distance_m :: "int option"

type_synonym prio = "int \<times> int \<times> ident"

type_synonym entry = "int \<times> int \<times> ident \<times> nat \<times> info"

definition entry_accum :: "entry \<Rightarrow> int" where
  "entry_accum e = fst e"

definition entry_arr :: "entry \<Rightarrow> int" where
  "entry_arr e = fst (snd e)"

definition entry_dest :: "entry \<Rightarrow> ident" where
  "entry_dest e = fst (snd (snd e))"

definition entry_counter :: "entry \<Rightarrow> nat" where
  "entry_counter e = fst (snd (snd (snd e)))"

definition entry_info :: "entry \<Rightarrow> info" where
  "entry_info e = snd (snd (snd (snd e)))"


text \<open>
  The four key positions, in an order that is total and that is Python's order wherever
  \<open>py_entry_less\<close> is decided by a number, or by two identifiers of one kind.
\<close>

definition key_of :: "entry \<Rightarrow> int \<times> int \<times> (nat \<times> rat \<times> string) \<times> nat" where
  "key_of e = (case e of (a, t, d, c, i) \<Rightarrow> (a, t, id_key d, c))"

subsection \<open>heapq\<close>

text \<open>
  heapq keeps a least entry at index 0 of the list. The program only pushes, reads
  \<open>pq[0]\<close> and pops, so a frontier is the list of its entries in push order, and
  \<open>pq[0]\<close> is the least of them by key.
\<close>

definition heappush :: "entry list \<Rightarrow> entry \<Rightarrow> entry list" where
  "heappush q e = q @ [e]"

definition heap_top :: "entry list \<Rightarrow> entry" where
  "heap_top q = arg_min_list key_of q"

definition heappop :: "entry list \<Rightarrow> entry list" where
  "heappop q = remove1 (heap_top q) q"

text \<open>The frontier being pushed to, together with the global \<open>counter\<close>.\<close>

fun heappush_entry :: "entry list \<times> nat \<Rightarrow> prio \<times> info \<Rightarrow> entry list \<times> nat" where
  "heappush_entry (q, counter) ((a, t, d), payload) =
     (heappush q (a, t, d, counter + 1, payload), counter + 1)"

definition push_all :: "entry list \<times> nat \<Rightarrow> (prio \<times> info) list \<Rightarrow> entry list \<times> nat" where
  "push_all qc ps = fold (\<lambda>p s. heappush_entry s p) ps qc"

subsection \<open>The three expansions\<close>

definition pathway_transfer_pushes ::
  "'fl feed \<Rightarrow> ident \<Rightarrow> int \<Rightarrow> int \<Rightarrow> string \<Rightarrow> (prio \<times> info) list" where
  "pathway_transfer_pushes f cur_stop cur_time accum_time ow =
     map (\<lambda>(to, ttime, src).
            ((accum_time + ttime, cur_time + ttime, to),
             \<lparr>owner = ow, mode = WALK, source = Some src, from_stop = Some cur_stop,
              to_stop = to, trip_id = None, walk_sec = Some ttime, wait_sec = None,
              ride_sec = None, depart_sec = cur_time, arrive_sec = cur_time + ttime,
              distance_m = None\<rparr>))
         (walk_edges f cur_stop)"

definition enqueue_pathway_transfer_walks ::
  "'fl feed \<Rightarrow> entry list \<times> nat \<Rightarrow> ident \<Rightarrow> int \<Rightarrow> int \<Rightarrow> string \<Rightarrow> entry list \<times> nat" where
  "enqueue_pathway_transfer_walks f qc cur_stop cur_time accum_time ow =
     push_all qc (pathway_transfer_pushes f cur_stop cur_time accum_time ow)"

text \<open>
  One turn of the loop of \<open>enqueue_geo_walks\<close>: the pushes it makes, \<open>None\<close> when the
  division, \<open>ceil\<close> or \<open>round\<close> raises.
\<close>

definition geo_push ::
  "'fl machine \<Rightarrow> 'fl feed \<Rightarrow> ident \<Rightarrow> int \<Rightarrow> int \<Rightarrow> string \<Rightarrow> ident \<times> 'fl
     \<Rightarrow> (prio \<times> info) list option" where
  "geo_push m f cur_stop cur_time accum_time ow cd =
     (case cd of (cand, dist_m) \<Rightarrow>
        if fl_gt m dist_m (MAX_WALK_RADIUS_M m) then Some []
        else if (cur_stop, cand) \<in> provided_pairs f then Some []
        else do {
          q \<leftarrow> fl_div m dist_m (WALK_SPEED_MPS m);
          c \<leftarrow> fl_ceil m q;
          let ttime = max 30 c;
          if ttime \<le> MAX_WALK_TIME_S
          then do {
            dm \<leftarrow> fl_round m dist_m;
            Some [((accum_time + ttime, cur_time + ttime, cand),
                   \<lparr>owner = ow, mode = WALK, source = Some GEO,
                    from_stop = Some cur_stop, to_stop = cand, trip_id = None,
                    walk_sec = Some ttime, wait_sec = None, ride_sec = None,
                    depart_sec = cur_time, arrive_sec = cur_time + ttime,
                    distance_m = Some dm\<rparr>)]
          }
          else Some []
        })"

definition geo_pushes ::
  "'fl machine \<Rightarrow> 'fl feed \<Rightarrow> ident \<Rightarrow> int \<Rightarrow> int \<Rightarrow> string \<Rightarrow> (prio \<times> info) list option" where
  "geo_pushes m f cur_stop cur_time accum_time ow =
     do {
       near \<leftarrow> nearby_stops_within_radius m f cur_stop (MAX_WALK_RADIUS_M m);
       ps \<leftarrow> those (map (geo_push m f cur_stop cur_time accum_time ow) near);
       Some (concat ps)
     }"

definition enqueue_geo_walks ::
  "'fl machine \<Rightarrow> 'fl feed \<Rightarrow> entry list \<times> nat \<Rightarrow> ident \<Rightarrow> int \<Rightarrow> int \<Rightarrow> string
     \<Rightarrow> (entry list \<times> nat) option" where
  "enqueue_geo_walks m f qc cur_stop cur_time accum_time ow =
     map_option (push_all qc) (geo_pushes m f cur_stop cur_time accum_time ow)"

text \<open>
  The filter \<open>grp["dep_sec"] >= cur_time\<close>: false for a missing value; in a column
  with a missing value, \<open>cur_time\<close> is compared as a value of that column.
\<close>

definition departs_from :: "'fl machine \<Rightarrow> 'fl feed \<Rightarrow> int \<Rightarrow> stop_time_row \<Rightarrow> bool" where
  "departs_from m f cur_time r =
     (case dep_sec m f r of
        None \<Rightarrow> False
      | Some d \<Rightarrow>
          if None \<in> set (dep_col m f) then col_int m (dep_col m f) cur_time \<le> d
          else cur_time \<le> d)"

definition ride_push ::
  "'fl machine \<Rightarrow> 'fl feed \<Rightarrow> ident \<Rightarrow> int \<Rightarrow> int \<Rightarrow> string \<Rightarrow> stop_time_row \<Rightarrow> int
     \<Rightarrow> stop_time_row \<Rightarrow> (prio \<times> info) list" where
  "ride_push m f cur_stop cur_time accum_time ow dep_row dep_time r2 =
     (case arr_sec m f r2 of
        None \<Rightarrow> []
      | Some arr_time \<Rightarrow>
          (let wait = dep_time - cur_time;
               ride = arr_time - dep_time;
               total = wait + ride
           in [((accum_time + total, arr_time, st_stop_id r2),
                \<lparr>owner = ow, mode = RIDE, source = None, from_stop = Some cur_stop,
                 to_stop = st_stop_id r2, trip_id = Some (st_trip_id dep_row),
                 walk_sec = None, wait_sec = Some wait, ride_sec = Some ride,
                 depart_sec = dep_time, arrive_sec = arr_time, distance_m = None\<rparr>)]))"

text \<open>\<open>>\<close> on two stop sequences; a missing one is NaN, and the test fails.\<close>

definition seq_after :: "stop_time_row \<Rightarrow> stop_time_row \<Rightarrow> bool" where
  "seq_after dep_row r2 =
     (case (st_stop_sequence dep_row, st_stop_sequence r2) of
        (Some x, Some y) \<Rightarrow> x < y
      | _ \<Rightarrow> False)"

text \<open>
  For a boarding row, the later rows of its trip. The boarding rows have passed the
  filter \<open>dep_sec >= cur_time\<close>, so their departure is defined.
\<close>

definition rides_of_row ::
  "'fl machine \<Rightarrow> 'fl feed \<Rightarrow> ident \<Rightarrow> int \<Rightarrow> int \<Rightarrow> string \<Rightarrow> stop_time_row
     \<Rightarrow> (prio \<times> info) list option" where
  "rides_of_row m f cur_stop cur_time accum_time ow dep_row =
     (case dep_sec m f dep_row of
        None \<Rightarrow> Some []
      | Some dep_time \<Rightarrow>
          map_option
            (\<lambda>after. concat (map (ride_push m f cur_stop cur_time accum_time ow dep_row dep_time)
               (filter (seq_after dep_row) after)))
            (trip_groups f (st_trip_id dep_row)))"

definition ride_pushes ::
  "'fl machine \<Rightarrow> 'fl feed \<Rightarrow> ident \<Rightarrow> int \<Rightarrow> int \<Rightarrow> string \<Rightarrow> (prio \<times> info) list option" where
  "ride_pushes m f cur_stop cur_time accum_time ow =
     map_option concat
       (those (map (rides_of_row m f cur_stop cur_time accum_time ow)
          (filter (departs_from m f cur_time) (rows_at_stop m f cur_stop))))"

definition enqueue_rides ::
  "'fl machine \<Rightarrow> 'fl feed \<Rightarrow> entry list \<times> nat \<Rightarrow> ident \<Rightarrow> int \<Rightarrow> int \<Rightarrow> string
     \<Rightarrow> (entry list \<times> nat) option" where
  "enqueue_rides m f qc cur_stop cur_time accum_time ow =
     map_option (push_all qc) (ride_pushes m f cur_stop cur_time accum_time ow)"

text \<open>The three calls made after the seed and after every settled platform.\<close>

definition expand ::
  "'fl machine \<Rightarrow> 'fl feed \<Rightarrow> entry list \<times> nat \<Rightarrow> ident \<Rightarrow> int \<Rightarrow> int \<Rightarrow> string
     \<Rightarrow> (entry list \<times> nat) option" where
  "expand m f qc cur_stop cur_time accum_time ow =
     do {
       qc2 \<leftarrow> enqueue_geo_walks m f
                (enqueue_pathway_transfer_walks f qc cur_stop cur_time accum_time ow)
                cur_stop cur_time accum_time ow;
       enqueue_rides m f qc2 cur_stop cur_time accum_time ow
     }"

subsection \<open>Persons\<close>

record person =
  label :: string
  start_stop_id :: ident
  t0 :: int
  pq :: "entry list"
  visited_stops :: "ident set"
  reached_stop_first :: "ident \<rightharpoonup> (int \<times> int)"
  parent :: "ident \<rightharpoonup> (ident option \<times> info)"

record search_state =
  persons :: "person list"
  counter :: nat

definition start_info :: "string \<Rightarrow> ident \<Rightarrow> int \<Rightarrow> info" where
  "start_info lbl start t =
     \<lparr>owner = lbl, mode = START, source = None, from_stop = None, to_stop = start,
      trip_id = None, walk_sec = None, wait_sec = None, ride_sec = None,
      depart_sec = t, arrive_sec = t, distance_m = None\<rparr>"

text \<open>
  One turn of the loop over \<open>people_inputs\<close>, after the station is resolved and the
  start platform picked: the input is the label and the start platform.
\<close>

definition init_person ::
  "'fl machine \<Rightarrow> 'fl feed \<Rightarrow> config \<Rightarrow> nat \<Rightarrow> string \<times> ident \<Rightarrow> (person \<times> nat) option" where
  "init_person m f cfg c inp =
     (case inp of (lbl, start) \<Rightarrow>
        (case expand m f
                (heappush_entry ([], c) ((0, T0 cfg, start), start_info lbl start (T0 cfg)))
                start (T0 cfg) 0 lbl of
           None \<Rightarrow> None
         | Some (q, c') \<Rightarrow>
             Some (\<lparr>label = lbl, start_stop_id = start, t0 = T0 cfg, pq = q,
                    visited_stops = {}, reached_stop_first = Map.empty,
                    parent = Map.empty\<rparr>, c')))"

fun init_persons ::
  "'fl machine \<Rightarrow> 'fl feed \<Rightarrow> config \<Rightarrow> search_state \<Rightarrow> (string \<times> ident) list
     \<Rightarrow> search_state option" where
  "init_persons m f cfg st [] = Some st"
| "init_persons m f cfg st (inp # inps) =
     (case init_person m f cfg (counter st) inp of
        None \<Rightarrow> None
      | Some (P, c') \<Rightarrow>
          init_persons m f cfg \<lparr>persons = persons st @ [P], counter = c'\<rparr> inps)"

text \<open>The state at the head of the loop, when the ingest and the seeding complete.\<close>

definition init_search ::
  "'fl machine \<Rightarrow> 'fl feed \<Rightarrow> config \<Rightarrow> (string \<times> ident) list \<Rightarrow> search_state option" where
  "init_search m f cfg inps =
     (if ingest_ok m f then init_persons m f cfg \<lparr>persons = [], counter = 0\<rparr> inps
      else None)"

subsection \<open>pop_global\<close>

text \<open>A person \<open>S\<close> is named by its position in \<open>persons\<close>.\<close>

datatype popped =
  Pop_None
| Pop_CAP nat
| Pop_Entry int nat ident info

definition candidates :: "person list \<Rightarrow> (entry \<times> nat) list" where
  "candidates ps =
     map (\<lambda>(i, S). (heap_top (pq S), i))
       (filter (\<lambda>(i, S). pq S \<noteq> []) (enumerate 0 ps))"

definition pop_global :: "config \<Rightarrow> search_state \<Rightarrow> popped \<times> search_state" where
  "pop_global cfg st =
     (let cs = candidates (persons st)
      in if cs = [] then (Pop_None, st)
         else (case arg_min_list (\<lambda>x. key_of (fst x)) cs of
                 (least, i) \<Rightarrow>
                   if entry_accum least > MAX_TRIP_TIME_S cfg then (Pop_CAP i, st)
                   else (let S = persons st ! i;
                             act = entry_info (heap_top (pq S))
                         in (Pop_Entry (entry_accum least) i (to_stop act) act,
                             st\<lparr>persons := (persons st)[i := S\<lparr>pq := heappop (pq S)\<rparr>]\<rparr>))))"

subsection \<open>The search loop\<close>

datatype meeting = OK ident | CAP nat

datatype loop_result =
  Continue search_state
| Break "meeting option" search_state
| Raise

definition settle :: "person \<Rightarrow> ident \<Rightarrow> int \<Rightarrow> info \<Rightarrow> person" where
  "settle S dest_stop accum act =
     (let S1 = S\<lparr>visited_stops := insert dest_stop (visited_stops S)\<rparr>;
          S2 = (if mode act \<noteq> START
                then S1\<lparr>parent := (parent S1)(dest_stop \<mapsto> (from_stop act, act))\<rparr>
                else S1)
      in if reached_stop_first S2 dest_stop = None
         then S2\<lparr>reached_stop_first :=
                   (reached_stop_first S2)(dest_stop \<mapsto> (arrive_sec act, accum))\<rparr>
         else S2)"

definition loop_body :: "'fl machine \<Rightarrow> 'fl feed \<Rightarrow> config \<Rightarrow> search_state \<Rightarrow> loop_result" where
  "loop_body m f cfg st =
     (case pop_global cfg st of
        (Pop_None, st1) \<Rightarrow> Break None st1
      | (Pop_CAP i, st1) \<Rightarrow> Break (Some (CAP i)) st1
      | (Pop_Entry accum i dest_stop act, st1) \<Rightarrow>
          if dest_stop \<in> visited_stops (persons st1 ! i) then Continue st1
          else (let S = settle (persons st1 ! i) dest_stop accum act;
                    ps = (persons st1)[i := S]
                in if list_all (\<lambda>P. reached_stop_first P dest_stop \<noteq> None) ps
                   then Break (Some (OK dest_stop)) (st1\<lparr>persons := ps\<rparr>)
                   else (case expand m f (pq S, counter st1) dest_stop (arrive_sec act)
                                 accum (owner act) of
                           None \<Rightarrow> Raise
                         | Some (q, c') \<Rightarrow>
                             Continue \<lparr>persons = ps[i := S\<lparr>pq := q\<rparr>], counter = c'\<rparr>)))"

text \<open>
  The states at the head of the loop, and the states the search passes through: the
  loop heads and the state a \<open>break\<close> leaves behind.
\<close>

inductive loop_head ::
  "'fl machine \<Rightarrow> 'fl feed \<Rightarrow> config \<Rightarrow> (string \<times> ident) list \<Rightarrow> search_state \<Rightarrow> bool"
  for m :: "'fl machine" and f :: "'fl feed" and cfg :: config
    and inps :: "(string \<times> ident) list" where
  head_init: "init_search m f cfg inps = Some st \<Longrightarrow> loop_head m f cfg inps st"
| head_step: "loop_head m f cfg inps st \<Longrightarrow> loop_body m f cfg st = Continue st'
               \<Longrightarrow> loop_head m f cfg inps st'"

definition search_state ::
  "'fl machine \<Rightarrow> 'fl feed \<Rightarrow> config \<Rightarrow> (string \<times> ident) list \<Rightarrow> search_state \<Rightarrow> bool" where
  "search_state m f cfg inps st =
     (loop_head m f cfg inps st
      \<or> (\<exists>s r. loop_head m f cfg inps s \<and> loop_body m f cfg s = Break r st))"

text \<open>The loop with a bound on the number of turns; \<open>None\<close> when the bound is reached.\<close>

fun run_loop ::
  "nat \<Rightarrow> 'fl machine \<Rightarrow> 'fl feed \<Rightarrow> config \<Rightarrow> search_state \<Rightarrow> loop_result option" where
  "run_loop 0 m f cfg st = None"
| "run_loop (Suc n) m f cfg st =
     (case loop_body m f cfg st of
        Continue st' \<Rightarrow> run_loop n m f cfg st'
      | r \<Rightarrow> Some r)"

subsection \<open>Final report\<close>

text \<open>Python's \<open>max\<close> and \<open>min\<close> over a non-empty sequence.\<close>

definition py_max :: "int list \<Rightarrow> int" where
  "py_max xs = foldl max (hd xs) (tl xs)"

definition py_min :: "int list \<Rightarrow> int" where
  "py_min xs = foldl min (hd xs) (tl xs)"

text \<open>
  The triples \<open>(label, elapsed, arr_abs)\<close>; \<open>None\<close> is the KeyError of
  \<open>S["reached_stop_first"][stop_id]\<close>.
\<close>

fun arrivals :: "person list \<Rightarrow> ident \<Rightarrow> (string \<times> int \<times> int) list option" where
  "arrivals [] p = Some []"
| "arrivals (S # Ss) p =
     (case reached_stop_first S p of
        None \<Rightarrow> None
      | Some (arr_abs, elapsed) \<Rightarrow>
          map_option (\<lambda>rest. (label S, elapsed, arr_abs) # rest) (arrivals Ss p))"

record report =
  meet_time :: int
  max_elapsed :: int
  spread :: int

text \<open>\<open>None\<close>: a KeyError, or \<open>max\<close> of an empty sequence.\<close>

definition final_report :: "search_state \<Rightarrow> ident \<Rightarrow> report option" where
  "final_report st p =
     (case arrivals (persons st) p of
        None \<Rightarrow> None
      | Some arrs \<Rightarrow>
          if arrs = [] then None
          else Some \<lparr>meet_time = py_max (map (\<lambda>x. snd (snd x)) arrs),
                     max_elapsed = py_max (map (\<lambda>x. fst (snd x)) arrs),
                     spread = py_max (map (\<lambda>x. fst (snd x)) arrs)
                              - py_min (map (\<lambda>x. fst (snd x)) arrs)\<rparr>)"

section \<open>Auxiliary notions for the proofs\<close>

text \<open>The entry that \<open>heappush_entry\<close> builds from a priority, a payload and a counter.\<close>

fun stamp :: "nat \<Rightarrow> prio \<times> info \<Rightarrow> entry" where
  "stamp c ((a, t, d), payload) = (a, t, d, c, payload)"

text \<open>The entries that \<open>push_all\<close> appends when the counter stands at \<open>c\<close>.\<close>

fun stamps :: "nat \<Rightarrow> (prio \<times> info) list \<Rightarrow> entry list" where
  "stamps c [] = []"
| "stamps c (p # ps) = stamp (Suc c) p # stamps (Suc c) ps"

text \<open>All pushes of one expansion, in order; \<open>None\<close> when one of the calls raises.\<close>

definition expansion_pushes ::
  "'fl machine \<Rightarrow> 'fl feed \<Rightarrow> ident \<Rightarrow> int \<Rightarrow> int \<Rightarrow> string \<Rightarrow> (prio \<times> info) list option" where
  "expansion_pushes m f u t a ow =
     do {
       g \<leftarrow> geo_pushes m f u t a ow;
       r \<leftarrow> ride_pushes m f u t a ow;
       Some (pathway_transfer_pushes f u t a ow @ g @ r)
     }"

text \<open>The chosen person after the pop, and after the pop and the bookkeeping.\<close>

definition popped_person :: "person \<Rightarrow> person" where
  "popped_person S = S\<lparr>pq := heappop (pq S)\<rparr>"

definition settled_person :: "person \<Rightarrow> person" where
  "settled_person S =
     settle (popped_person S) (to_stop (entry_info (heap_top (pq S))))
       (entry_accum (heap_top (pq S))) (entry_info (heap_top (pq S)))"

text \<open>The haversine distance between two platforms of the feed, as the machine computes it.\<close>

definition stop_distance :: "'fl machine \<Rightarrow> 'fl feed \<Rightarrow> ident \<Rightarrow> ident \<Rightarrow> 'fl option" where
  "stop_distance m f u v =
     do {
       lat0 \<leftarrow> map_of (stop_lat f) u;
       lon0 \<leftarrow> map_of (stop_lon f) u;
       lat \<leftarrow> map_of (stop_lat f) v;
       lon \<leftarrow> map_of (stop_lon f) v;
       haversine_m m lat0 lon0 lat lon
     }"

text \<open>All entries of all frontiers, and the state of the insertion counters.\<close>

definition all_entries :: "search_state \<Rightarrow> entry list" where
  "all_entries st = concat (map pq (persons st))"




section \<open>A worked example\<close>

text \<open>
  For the examples, a machine that computes with real numbers exactly.
\<close>

definition py_round :: "real \<Rightarrow> int" where
  "py_round x =
     (let fl = \<lfloor>x\<rfloor>; d = x - of_int fl
      in if d < 1 / 2 then fl else if 1 / 2 < d then fl + 1
         else if even fl then fl else fl + 1)"

definition real_machine :: "real machine" where
  "real_machine =
     \<lparr>fl_lit = (\<lambda>x. x), fl_add = (\<lambda>x y. x + y), fl_sub = (\<lambda>x y. x - y),
      fl_mul = (\<lambda>x y. x * y),
      fl_div = (\<lambda>x y. if y = 0 then None else Some (x / y)),
      fl_sq = (\<lambda>x. Some (x * x)), fl_radians = (\<lambda>x. x * pi / 180),
      fl_sin = (\<lambda>x. Some (sin x)), fl_cos = (\<lambda>x. Some (cos x)),
      fl_sqrt = (\<lambda>x. if x < 0 then None else Some (sqrt x)),
      fl_asin = (\<lambda>x. if - 1 \<le> x \<and> x \<le> 1 then Some (arcsin x) else None),
      fl_floor = (\<lambda>x. Some \<lfloor>x\<rfloor>), fl_ceil = (\<lambda>x. Some \<lceil>x\<rceil>),
      fl_round = (\<lambda>x. Some (py_round x)), fl_gt = (\<lambda>x y. y < x),
      col_int = (\<lambda>col x. x), max_str_digits = Some 4300\<rparr>"

text \<open>
  Three platforms at one place, a fourth far away, one pathway, one trip whose first row
  has no arrival time, and two travellers. The states are those the search passes through.
\<close>

definition ex_feed :: "real feed" where
  "ex_feed = \<lparr>stops =
       [\<lparr>s_stop_id = IdStr ''A1'', s_stop_name = Some ''Alpha'', s_stop_desc = None,
         s_stop_lat = 0, s_stop_lon = 0, s_parent_station = IdStr ''A''\<rparr>,
        \<lparr>s_stop_id = IdStr ''A2'', s_stop_name = Some ''Alpha'', s_stop_desc = None,
         s_stop_lat = 0, s_stop_lon = 0, s_parent_station = IdStr ''A''\<rparr>,
        \<lparr>s_stop_id = IdStr ''B1'', s_stop_name = Some ''Beta'', s_stop_desc = None,
         s_stop_lat = 0, s_stop_lon = 0, s_parent_station = IdNaN\<rparr>,
        \<lparr>s_stop_id = IdStr ''C1'', s_stop_name = Some ''Gamma'', s_stop_desc = None,
         s_stop_lat = 1, s_stop_lon = 1, s_parent_station = IdNaN\<rparr>],
     stop_times =
       [\<lparr>st_trip_id = IdStr ''T1'', st_stop_id = IdStr ''A1'', st_stop_sequence = Some 1,
         st_arrival_time = None, st_departure_time = Some ''13:05:00''\<rparr>,
        \<lparr>st_trip_id = IdStr ''T1'', st_stop_id = IdStr ''C1'', st_stop_sequence = Some 2,
         st_arrival_time = Some ''13:15:00'', st_departure_time = Some ''13:15:00''\<rparr>],
     pathways =
       [\<lparr>w_from_stop_id = IdStr ''A1'', w_to_stop_id = IdStr ''A2'', w_time = Some 120\<rparr>],
     transfers = []\<rparr>"

definition ex_inputs :: "(string \<times> ident) list" where
  "ex_inputs = [(''A'', IdStr ''A1''), (''B'', IdStr ''B1'')]"

definition walk_info ::
  "string \<Rightarrow> walk_source \<Rightarrow> ident \<Rightarrow> ident \<Rightarrow> int \<Rightarrow> int \<Rightarrow> int option \<Rightarrow> info" where
  "walk_info ow src u v w t dm =
     \<lparr>owner = ow, mode = WALK, source = Some src, from_stop = Some u, to_stop = v,
      trip_id = None, walk_sec = Some w, wait_sec = None, ride_sec = None,
      depart_sec = t, arrive_sec = t + w, distance_m = dm\<rparr>"

definition ex_pushes_A1 :: "string \<Rightarrow> (prio \<times> info) list" where
  "ex_pushes_A1 ow =
     [((120, 46920, IdStr ''A2''),
       walk_info ow PATHWAYS (IdStr ''A1'') (IdStr ''A2'') 120 46800 None),
      ((30, 46830, IdStr ''B1''),
       walk_info ow GEO (IdStr ''A1'') (IdStr ''B1'') 30 46800 (Some 0)),
      ((900, 47700, IdStr ''C1''),
       \<lparr>owner = ow, mode = RIDE, source = None, from_stop = Some (IdStr ''A1''),
        to_stop = IdStr ''C1'', trip_id = Some (IdStr ''T1''), walk_sec = None,
        wait_sec = Some 300, ride_sec = Some 600, depart_sec = 47100, arrive_sec = 47700,
        distance_m = None\<rparr>)]"

definition ex_pushes_B1 :: "string \<Rightarrow> (prio \<times> info) list" where
  "ex_pushes_B1 ow =
     [((30, 46830, IdStr ''A1''),
       walk_info ow GEO (IdStr ''B1'') (IdStr ''A1'') 30 46800 (Some 0)),
      ((30, 46830, IdStr ''A2''),
       walk_info ow GEO (IdStr ''B1'') (IdStr ''A2'') 30 46800 (Some 0))]"

definition ex_A0 :: person where
  "ex_A0 = \<lparr>label = ''A'', start_stop_id = IdStr ''A1'', t0 = 46800,
      pq = stamp 1 ((0, 46800, IdStr ''A1''), start_info ''A'' (IdStr ''A1'') 46800)
           # stamps 1 (ex_pushes_A1 ''A''),
      visited_stops = {}, reached_stop_first = Map.empty, parent = Map.empty\<rparr>"

definition ex_B0 :: person where
  "ex_B0 = \<lparr>label = ''B'', start_stop_id = IdStr ''B1'', t0 = 46800,
      pq = stamp 5 ((0, 46800, IdStr ''B1''), start_info ''B'' (IdStr ''B1'') 46800)
           # stamps 5 (ex_pushes_B1 ''B''),
      visited_stops = {}, reached_stop_first = Map.empty, parent = Map.empty\<rparr>"

definition ex_init :: search_state where
  "ex_init = \<lparr>persons = [ex_A0, ex_B0], counter = 7\<rparr>"

definition ex_A1s :: person where
  "ex_A1s = \<lparr>label = ''A'', start_stop_id = IdStr ''A1'', t0 = 46800,
      pq = stamps 1 (ex_pushes_A1 ''A'') @ stamps 7 (ex_pushes_A1 ''A''),
      visited_stops = {IdStr ''A1''}, reached_stop_first = [IdStr ''A1'' \<mapsto> (46800, 0)],
      parent = Map.empty\<rparr>"

definition ex_st1 :: search_state where
  "ex_st1 = \<lparr>persons = [ex_A1s, ex_B0], counter = 10\<rparr>"

definition ex_B1s :: person where
  "ex_B1s = \<lparr>label = ''B'', start_stop_id = IdStr ''B1'', t0 = 46800,
      pq = stamps 5 (ex_pushes_B1 ''B'') @ stamps 10 (ex_pushes_B1 ''B''),
      visited_stops = {IdStr ''B1''}, reached_stop_first = [IdStr ''B1'' \<mapsto> (46800, 0)],
      parent = Map.empty\<rparr>"

definition ex_st2 :: search_state where
  "ex_st2 = \<lparr>persons = [ex_A1s, ex_B1s], counter = 12\<rparr>"

definition ex_B2s :: person where
  "ex_B2s = \<lparr>label = ''B'', start_stop_id = IdStr ''B1'', t0 = 46800,
      pq = stamp 7 (ex_pushes_B1 ''B'' ! 1) # stamps 10 (ex_pushes_B1 ''B''),
      visited_stops = {IdStr ''A1'', IdStr ''B1''},
      reached_stop_first = [IdStr ''B1'' \<mapsto> (46800, 0), IdStr ''A1'' \<mapsto> (46830, 30)],
      parent = [IdStr ''A1'' \<mapsto>
                  (Some (IdStr ''B1''),
                   walk_info ''B'' GEO (IdStr ''B1'') (IdStr ''A1'') 30 46800 (Some 0))]\<rparr>"

definition ex_final :: search_state where
  "ex_final = \<lparr>persons = [ex_A1s, ex_B2s], counter = 12\<rparr>"

text \<open>
  A feed whose platforms have the numeric ids 0 and 5, at one place, with a pathway from
  0 to 5; one traveller starts at 0.
\<close>

definition id0_feed :: "real feed" where
  "id0_feed = \<lparr>stops =
       [\<lparr>s_stop_id = IdNum 0, s_stop_name = Some ''Zero'', s_stop_desc = None,
         s_stop_lat = 0, s_stop_lon = 0, s_parent_station = IdNaN\<rparr>,
        \<lparr>s_stop_id = IdNum 5, s_stop_name = Some ''Five'', s_stop_desc = None,
         s_stop_lat = 0, s_stop_lon = 0, s_parent_station = IdNaN\<rparr>],
     stop_times = [],
     pathways =
       [\<lparr>w_from_stop_id = IdNum 0, w_to_stop_id = IdNum 5, w_time = Some 120\<rparr>],
     transfers = []\<rparr>"

definition id0_inputs :: "(string \<times> ident) list" where
  "id0_inputs = [(''A'', IdNum 0)]"

definition id0_geo :: "prio \<times> info" where
  "id0_geo = ((30, 46830, IdNum 5), walk_info ''A'' GEO (IdNum 0) (IdNum 5) 30 46800 (Some 0))"

definition id0_init :: search_state where
  "id0_init =
     \<lparr>persons =
        [\<lparr>label = ''A'', start_stop_id = IdNum 0, t0 = 46800,
          pq = [stamp 1 ((0, 46800, IdNum 0), start_info ''A'' (IdNum 0) 46800),
                stamp 2 id0_geo],
          visited_stops = {}, reached_stop_first = Map.empty, parent = Map.empty\<rparr>],
      counter = 2\<rparr>"

text \<open>
  A time whose hour has 4301 digits, and the worked example with one stop_times row that
  departs at that time.
\<close>

definition long_hour :: string where
  "long_hour = replicate 4301 CHR ''1'' @ '':00:00''"

definition long_hour_feed :: "real feed" where
  "long_hour_feed =
     ex_feed\<lparr>stop_times :=
       [\<lparr>st_trip_id = IdStr ''T1'', st_stop_id = IdStr ''A1'', st_stop_sequence = Some 1,
         st_arrival_time = None, st_departure_time = Some long_hour\<rparr>]\<rparr>"

text \<open>What a RIDE action \<open>i\<close> has: a boarding row and a later row of the same trip.\<close>

definition ride_rows :: "'fl machine \<Rightarrow> 'fl feed \<Rightarrow> info \<Rightarrow> bool" where
  "ride_rows m f i =
     (\<exists>r1 r2 d0 a0. r1 \<in> set (stop_times f) \<and> r2 \<in> set (stop_times f)
        \<and> from_stop i = Some (st_stop_id r1)
        \<and> to_seconds m (st_departure_time r1) = Inr (Some d0)
        \<and> dep_sec m f r1 = Some (depart_sec i)
        \<and> trip_id i = Some (st_trip_id r1)
        \<and> st_trip_id r2 = st_trip_id r1 \<and> seq_after r1 r2
        \<and> to_stop i = st_stop_id r2
        \<and> to_seconds m (st_arrival_time r2) = Inr (Some a0)
        \<and> arr_sec m f r2 = Some (arrive_sec i))"





section \<open>Pushing onto a frontier\<close>

lemma heappush_entry_stamp: "heappush_entry (q, c) p = (q @ [stamp (Suc c) p], Suc c)"
proof -
  obtain a t d i where "p = ((a, t, d), i)" by (metis surj_pair)
  then show ?thesis by (simp add: heappush_def)
qed

lemma push_all_Nil: "push_all qc [] = qc"
  by (simp add: push_all_def)

lemma push_all_Cons: "push_all (q, c) (p # ps) = push_all (q @ [stamp (Suc c) p], Suc c) ps"
  by (simp add: push_all_def heappush_entry_stamp)

lemma push_all_eq: "push_all (q, c) ps = (q @ stamps c ps, c + length ps)"
  by (induction ps arbitrary: q c) (simp_all add: push_all_Nil push_all_Cons)

lemma push_all_append: "push_all qc (xs @ ys) = push_all (push_all qc xs) ys"
  by (simp add: push_all_def)

lemma expand_eq: "expand m f qc u t a ow = map_option (push_all qc) (expansion_pushes m f u t a ow)"
  by (cases "geo_pushes m f u t a ow"; cases "ride_pushes m f u t a ow")
     (simp_all add: expand_def expansion_pushes_def enqueue_geo_walks_def
        enqueue_pathway_transfer_walks_def enqueue_rides_def push_all_append)

lemma stamps_mem:
  "e \<in> set (stamps c ps) \<Longrightarrow> \<exists>p \<in> set ps. \<exists>k. c < k \<and> k \<le> c + length ps \<and> e = stamp k p"
proof (induction ps arbitrary: c)
  case Nil
  then show ?case by simp
next
  case (Cons p ps)
  from Cons.prems have "e = stamp (Suc c) p \<or> e \<in> set (stamps (Suc c) ps)" by simp
  then show ?case
  proof
    assume "e = stamp (Suc c) p"
    then show ?thesis by auto
  next
    assume "e \<in> set (stamps (Suc c) ps)"
    from Cons.IH[OF this] obtain p' k where "p' \<in> set ps" "Suc c < k" "k \<le> Suc c + length ps" "e = stamp k p'"
      by blast
    then show ?thesis by (intro bexI[of _ p'] exI[of _ k]) auto
  qed
qed

lemma stamps_has:
  "p \<in> set ps \<Longrightarrow> \<exists>k. c < k \<and> k \<le> c + length ps \<and> stamp k p \<in> set (stamps c ps)"
proof (induction ps arbitrary: c)
  case Nil
  then show ?case by simp
next
  case (Cons x ps)
  show ?case
  proof (cases "p = x")
    case True
    then show ?thesis by (intro exI[of _ "Suc c"]) simp
  next
    case False
    with Cons.prems have "p \<in> set ps" by simp
    from Cons.IH[OF this, of "Suc c"] obtain k where "Suc c < k" "k \<le> Suc c + length ps" "stamp k p \<in> set (stamps (Suc c) ps)"
      by blast
    then show ?thesis by (intro exI[of _ k]) auto
  qed
qed



section \<open>Candidates of the global pop\<close>

lemma candidates_mem:
  "(tp, i) \<in> set (candidates ps)
   \<longleftrightarrow> i < length ps \<and> pq (ps ! i) \<noteq> [] \<and> tp = heap_top (pq (ps ! i))"
  by (auto simp: candidates_def in_set_enumerate_eq image_iff)

lemma candidates_empty: "candidates ps = [] \<longleftrightarrow> (\<forall>P \<in> set ps. pq P = [])"
proof
  assume e: "candidates ps = []"
  show "\<forall>P \<in> set ps. pq P = []"
  proof
    fix P assume "P \<in> set ps"
    then obtain i where i: "i < length ps" "ps ! i = P" by (auto simp: in_set_conv_nth)
    show "pq P = []"
    proof (rule ccontr)
      assume "pq P \<noteq> []"
      with i have "(heap_top (pq P), i) \<in> set (candidates ps)" by (simp add: candidates_mem)
      with e show False by simp
    qed
  qed
next
  assume a: "\<forall>P \<in> set ps. pq P = []"
  show "candidates ps = []"
  proof (rule ccontr)
    assume "candidates ps \<noteq> []"
    then have "hd (candidates ps) \<in> set (candidates ps)" by simp
    then obtain tp i where "(tp, i) \<in> set (candidates ps)" by (metis surj_pair)
    with a show False by (auto simp: candidates_mem)
  qed
qed

section \<open>The global pop and the loop body\<close>

text \<open>The person chosen by \<open>pop_global\<close>: the owner of the least top entry.\<close>

lemma global_min:
  assumes "candidates ps \<noteq> []"
  obtains i where "i < length ps" "pq (ps ! i) \<noteq> []"
    "arg_min_list (\<lambda>x. key_of (fst x)) (candidates ps) = (heap_top (pq (ps ! i)), i)"
    "\<forall>j < length ps. pq (ps ! j) \<noteq> []
       \<longrightarrow> key_of (heap_top (pq (ps ! i))) \<le> key_of (heap_top (pq (ps ! j)))"
proof -
  let ?m = "arg_min_list (\<lambda>x. key_of (fst x)) (candidates ps)"
  obtain tp i where m: "?m = (tp, i)" by (cases ?m)
  have "?m \<in> set (candidates ps)" using assms by (rule arg_min_list_in)
  with m have i: "i < length ps" "pq (ps ! i) \<noteq> []" "tp = heap_top (pq (ps ! i))"
    by (simp_all add: candidates_mem)
  have le: "\<forall>x \<in> set (candidates ps). key_of (fst ?m) \<le> key_of (fst x)"
    using f_arg_min_list_f[OF assms, of "\<lambda>x. key_of (fst x)"] by simp
  have "\<forall>j < length ps. pq (ps ! j) \<noteq> []
       \<longrightarrow> key_of (heap_top (pq (ps ! i))) \<le> key_of (heap_top (pq (ps ! j)))"
  proof (intro allI impI)
    fix j assume "j < length ps" "pq (ps ! j) \<noteq> []"
    then have "(heap_top (pq (ps ! j)), j) \<in> set (candidates ps)" by (simp add: candidates_mem)
    with le m i show "key_of (heap_top (pq (ps ! i))) \<le> key_of (heap_top (pq (ps ! j)))"
      by fastforce
  qed
  with that i m show thesis by simp
qed

lemma loop_body_cases [consumes 0, case_names none cap discard meet raise advance]:
  fixes m f cfg st
  defines "ps \<equiv> persons st"
  obtains
    (none) "\<forall>P \<in> set ps. pq P = []" "loop_body m f cfg st = Break None st"
  | (cap) i where "i < length ps" "pq (ps ! i) \<noteq> []"
      "\<forall>j < length ps. pq (ps ! j) \<noteq> []
         \<longrightarrow> key_of (heap_top (pq (ps ! i))) \<le> key_of (heap_top (pq (ps ! j)))"
      "MAX_TRIP_TIME_S cfg < entry_accum (heap_top (pq (ps ! i)))"
      "loop_body m f cfg st = Break (Some (CAP i)) st"
  | (discard) i where "i < length ps" "pq (ps ! i) \<noteq> []"
      "\<forall>j < length ps. pq (ps ! j) \<noteq> []
         \<longrightarrow> key_of (heap_top (pq (ps ! i))) \<le> key_of (heap_top (pq (ps ! j)))"
      "entry_accum (heap_top (pq (ps ! i))) \<le> MAX_TRIP_TIME_S cfg"
      "to_stop (entry_info (heap_top (pq (ps ! i)))) \<in> visited_stops (ps ! i)"
      "loop_body m f cfg st = Continue (st\<lparr>persons := ps[i := popped_person (ps ! i)]\<rparr>)"
  | (meet) i where "i < length ps" "pq (ps ! i) \<noteq> []"
      "\<forall>j < length ps. pq (ps ! j) \<noteq> []
         \<longrightarrow> key_of (heap_top (pq (ps ! i))) \<le> key_of (heap_top (pq (ps ! j)))"
      "entry_accum (heap_top (pq (ps ! i))) \<le> MAX_TRIP_TIME_S cfg"
      "to_stop (entry_info (heap_top (pq (ps ! i)))) \<notin> visited_stops (ps ! i)"
      "list_all (\<lambda>P. reached_stop_first P (to_stop (entry_info (heap_top (pq (ps ! i))))) \<noteq> None)
         (ps[i := settled_person (ps ! i)])"
      "loop_body m f cfg st
       = Break (Some (OK (to_stop (entry_info (heap_top (pq (ps ! i)))))))
           (st\<lparr>persons := ps[i := settled_person (ps ! i)]\<rparr>)"
  | (raise) i where "i < length ps" "pq (ps ! i) \<noteq> []"
      "to_stop (entry_info (heap_top (pq (ps ! i)))) \<notin> visited_stops (ps ! i)"
      "loop_body m f cfg st = Raise"
  | (advance) i pushes where "i < length ps" "pq (ps ! i) \<noteq> []"
      "\<forall>j < length ps. pq (ps ! j) \<noteq> []
         \<longrightarrow> key_of (heap_top (pq (ps ! i))) \<le> key_of (heap_top (pq (ps ! j)))"
      "entry_accum (heap_top (pq (ps ! i))) \<le> MAX_TRIP_TIME_S cfg"
      "to_stop (entry_info (heap_top (pq (ps ! i)))) \<notin> visited_stops (ps ! i)"
      "\<not> list_all (\<lambda>P. reached_stop_first P (to_stop (entry_info (heap_top (pq (ps ! i))))) \<noteq> None)
         (ps[i := settled_person (ps ! i)])"
      "expansion_pushes m f (to_stop (entry_info (heap_top (pq (ps ! i)))))
         (arrive_sec (entry_info (heap_top (pq (ps ! i)))))
         (entry_accum (heap_top (pq (ps ! i))))
         (owner (entry_info (heap_top (pq (ps ! i))))) = Some pushes"
      "loop_body m f cfg st
       = Continue \<lparr>persons = ps[i := (settled_person (ps ! i))
                      \<lparr>pq := pq (settled_person (ps ! i)) @ stamps (counter st) pushes\<rparr>],
                   counter = counter st + length pushes\<rparr>"
proof (cases "candidates ps = []")
  case True
  then have "loop_body m f cfg st = Break None st"
    by (simp add: loop_body_def pop_global_def ps_def)
  with True none show thesis by (simp add: candidates_empty)
next
  case False
  then obtain i where i: "i < length ps" "pq (ps ! i) \<noteq> []"
    and am: "arg_min_list (\<lambda>x. key_of (fst x)) (candidates ps) = (heap_top (pq (ps ! i)), i)"
    and mn: "\<forall>j < length ps. pq (ps ! j) \<noteq> []
       \<longrightarrow> key_of (heap_top (pq (ps ! i))) \<le> key_of (heap_top (pq (ps ! j)))"
    by (rule global_min)
  let ?tp = "heap_top (pq (ps ! i))"
  let ?d = "to_stop (entry_info ?tp)"
  show thesis
  proof (cases "MAX_TRIP_TIME_S cfg < entry_accum ?tp")
    case True
    then have "loop_body m f cfg st = Break (Some (CAP i)) st"
      using False am by (simp add: loop_body_def pop_global_def ps_def[symmetric])
    with i mn True cap show thesis by blast
  next
    case le: False
    have pg: "pop_global cfg st
      = (Pop_Entry (entry_accum ?tp) i ?d (entry_info ?tp),
         st\<lparr>persons := ps[i := popped_person (ps ! i)]\<rparr>)"
      using False am le
      by (simp add: pop_global_def ps_def[symmetric] Let_def popped_person_def)
    have nth: "(ps[i := popped_person (ps ! i)]) ! i = popped_person (ps ! i)"
      using i by simp
    have vis: "visited_stops (popped_person (ps ! i)) = visited_stops (ps ! i)"
      by (simp add: popped_person_def)
    show thesis
    proof (cases "?d \<in> visited_stops (ps ! i)")
      case True
      then have "loop_body m f cfg st = Continue (st\<lparr>persons := ps[i := popped_person (ps ! i)]\<rparr>)"
        by (simp add: loop_body_def pg nth vis)
      with i mn le True discard show thesis by auto
    next
      case nv: False
      have S: "settle (popped_person (ps ! i)) ?d (entry_accum ?tp) (entry_info ?tp)
               = settled_person (ps ! i)"
        by (simp add: settled_person_def)
      show thesis
      proof (cases "list_all (\<lambda>P. reached_stop_first P ?d \<noteq> None)
                      (ps[i := settled_person (ps ! i)])")
        case True
        then have "loop_body m f cfg st
          = Break (Some (OK ?d)) (st\<lparr>persons := ps[i := settled_person (ps ! i)]\<rparr>)"
          using nv by (simp add: loop_body_def pg nth vis S Let_def)
        with i mn le nv True meet show thesis by auto
      next
        case nm: False
        show thesis
        proof (cases "expansion_pushes m f ?d (arrive_sec (entry_info ?tp)) (entry_accum ?tp)
                        (owner (entry_info ?tp))")
          case None
          then have "loop_body m f cfg st = Raise"
            using nv nm by (simp add: loop_body_def pg nth vis S Let_def expand_eq)
          with i nv raise show thesis by auto
        next
          case (Some pushes)
          then have "loop_body m f cfg st
            = Continue \<lparr>persons = ps[i := (settled_person (ps ! i))
                      \<lparr>pq := pq (settled_person (ps ! i)) @ stamps (counter st) pushes\<rparr>],
                   counter = counter st + length pushes\<rparr>"
            using nv nm by (simp add: loop_body_def pg nth vis S Let_def expand_eq push_all_eq)
          with i mn le nv nm Some advance show thesis by auto
        qed
      qed
    qed
  qed
qed

section \<open>Bookkeeping of one person\<close>

lemma settle_simps:
  "pq (settle S d a i) = pq S"
  "label (settle S d a i) = label S"
  "start_stop_id (settle S d a i) = start_stop_id S"
  "t0 (settle S d a i) = t0 S"
  "visited_stops (settle S d a i) = insert d (visited_stops S)"
  "reached_stop_first (settle S d a i)
   = (if reached_stop_first S d = None then (reached_stop_first S)(d \<mapsto> (arrive_sec i, a))
      else reached_stop_first S)"
  by (auto simp: settle_def Let_def)

lemma popped_person_simps:
  "pq (popped_person S) = heappop (pq S)"
  "label (popped_person S) = label S"
  "start_stop_id (popped_person S) = start_stop_id S"
  "t0 (popped_person S) = t0 S"
  "visited_stops (popped_person S) = visited_stops S"
  "reached_stop_first (popped_person S) = reached_stop_first S"
  "parent (popped_person S) = parent S"
  by (simp_all add: popped_person_def)

lemma settled_person_simps:
  "pq (settled_person S) = heappop (pq S)"
  "label (settled_person S) = label S"
  "start_stop_id (settled_person S) = start_stop_id S"
  "t0 (settled_person S) = t0 S"
  "visited_stops (settled_person S)
   = insert (to_stop (entry_info (heap_top (pq S)))) (visited_stops S)"
  "reached_stop_first (settled_person S)
   = (if reached_stop_first S (to_stop (entry_info (heap_top (pq S)))) = None
      then (reached_stop_first S)(to_stop (entry_info (heap_top (pq S)))
             \<mapsto> (arrive_sec (entry_info (heap_top (pq S))), entry_accum (heap_top (pq S))))
      else reached_stop_first S)"
  by (simp_all add: settled_person_def settle_simps popped_person_simps)

section \<open>The least entry of a frontier\<close>

lemma heap_top_in: "q \<noteq> [] \<Longrightarrow> heap_top q \<in> set q"
  by (simp add: heap_top_def arg_min_list_in)

lemma heap_top_least: "e \<in> set q \<Longrightarrow> key_of (heap_top q) \<le> key_of e"
proof -
  assume e: "e \<in> set q"
  then have "q \<noteq> []" by auto
  then have "key_of (heap_top q) = Min (key_of ` set q)"
    unfolding heap_top_def by (rule f_arg_min_list_f)
  with e show ?thesis by simp
qed

lemma key_le_accum: "key_of x \<le> key_of y \<Longrightarrow> entry_accum x \<le> entry_accum y"
  by (cases x, cases y) (auto simp: key_of_def entry_accum_def less_eq_prod_def)

lemma heap_top_accum_least: "e \<in> set q \<Longrightarrow> entry_accum (heap_top q) \<le> entry_accum e"
  by (rule key_le_accum) (rule heap_top_least)

lemma set_heappop: "set (heappop q) \<subseteq> set q"
  by (simp add: heappop_def set_remove1_subset)

lemma set_heappop_keep: "e \<in> set q \<Longrightarrow> e \<noteq> heap_top q \<Longrightarrow> e \<in> set (heappop q)"
  by (simp add: heappop_def)

section \<open>Seeding\<close>

lemma init_person_Some:
  assumes "init_person m f cfg c (lbl, start) = Some (P, c')"
  obtains pushes where "expansion_pushes m f start (T0 cfg) 0 lbl = Some pushes"
    "P = \<lparr>label = lbl, start_stop_id = start, t0 = T0 cfg,
          pq = stamp (Suc c) ((0, T0 cfg, start), start_info lbl start (T0 cfg))
               # stamps (Suc c) pushes,
          visited_stops = {}, reached_stop_first = Map.empty, parent = Map.empty\<rparr>"
    "c' = Suc c + length pushes"
proof (cases "expansion_pushes m f start (T0 cfg) 0 lbl")
  case None
  with assms show thesis
    by (simp add: init_person_def expand_eq)
next
  case (Some pushes)
  with assms have "P = \<lparr>label = lbl, start_stop_id = start, t0 = T0 cfg,
          pq = stamp (Suc c) ((0, T0 cfg, start), start_info lbl start (T0 cfg))
               # stamps (Suc c) pushes,
          visited_stops = {}, reached_stop_first = Map.empty, parent = Map.empty\<rparr>"
      and "c' = Suc c + length pushes"
    by (auto simp: init_person_def expand_eq heappush_def push_all_eq)
  with Some that show thesis by blast
qed

lemma init_persons_mem:
  assumes "init_persons m f cfg st inps = Some st'" "P \<in> set (persons st')"
  shows "P \<in> set (persons st)
         \<or> (\<exists>c inp c'. inp \<in> set inps \<and> init_person m f cfg c inp = Some (P, c'))"
  using assms
proof (induction inps arbitrary: st)
  case Nil
  then show ?case by simp
next
  case (Cons inp inps)
  from Cons.prems(1) obtain Q c' where
    Q: "init_person m f cfg (counter st) inp = Some (Q, c')"
    and rest: "init_persons m f cfg \<lparr>persons = persons st @ [Q], counter = c'\<rparr> inps = Some st'"
    by (auto split: option.splits)
  from Cons.IH[OF rest Cons.prems(2)]
  consider "P \<in> set (persons st)" | "P = Q"
    | "\<exists>c inp c'. inp \<in> set inps \<and> init_person m f cfg c inp = Some (P, c')"
    by auto
  then show ?case
  proof cases
    case 1
    then show ?thesis by simp
  next
    case 2
    with Q have "inp \<in> set (inp # inps) \<and> init_person m f cfg (counter st) inp = Some (P, c')"
      by simp
    then show ?thesis by blast
  next
    case 3
    then obtain c x c' where "x \<in> set inps" "init_person m f cfg c x = Some (P, c')" by blast
    then have "x \<in> set (inp # inps) \<and> init_person m f cfg c x = Some (P, c')" by simp
    then show ?thesis by blast
  qed
qed

lemma init_search_mem:
  assumes "init_search m f cfg inps = Some st" "P \<in> set (persons st)"
  obtains c inp c' where "inp \<in> set inps" "init_person m f cfg c inp = Some (P, c')"
proof -
  from assms(1) have "init_persons m f cfg \<lparr>persons = [], counter = 0\<rparr> inps = Some st"
    by (simp add: init_search_def split: if_splits)
  from init_persons_mem[OF this assms(2)] that show thesis by auto
qed

section \<open>Invariants of the persons along the search\<close>

lemma loop_head_persons:
  assumes head: "loop_head m f cfg inps st"
    and init: "\<And>c inp P c'. inp \<in> set inps \<Longrightarrow> init_person m f cfg c inp = Some (P, c') \<Longrightarrow> I P"
    and discard: "\<And>P. I P \<Longrightarrow> pq P \<noteq> []
        \<Longrightarrow> to_stop (entry_info (heap_top (pq P))) \<in> visited_stops P
        \<Longrightarrow> I (popped_person P)"
    and advance: "\<And>P c pushes. I P \<Longrightarrow> pq P \<noteq> []
        \<Longrightarrow> to_stop (entry_info (heap_top (pq P))) \<notin> visited_stops P
        \<Longrightarrow> expansion_pushes m f (to_stop (entry_info (heap_top (pq P))))
              (arrive_sec (entry_info (heap_top (pq P)))) (entry_accum (heap_top (pq P)))
              (owner (entry_info (heap_top (pq P)))) = Some pushes
        \<Longrightarrow> I ((settled_person P)\<lparr>pq := pq (settled_person P) @ stamps c pushes\<rparr>)"
  shows "\<forall>P \<in> set (persons st). I P"
  using head
proof (induction rule: loop_head.induct)
  case (head_init st)
  show ?case
  proof
    fix P assume "P \<in> set (persons st)"
    with head_init obtain c inp c' where "inp \<in> set inps" "init_person m f cfg c inp = Some (P, c')"
      by (rule init_search_mem)
    then show "I P" by (rule init)
  qed
next
  case (head_step st st')
  let ?ps = "persons st"
  show ?case
  proof (cases rule: loop_body_cases[where st=st and m=m and f=f and cfg=cfg])
    case none
    with head_step show ?thesis by simp
  next
    case (cap i)
    with head_step show ?thesis by simp
  next
    case (discard i)
    with head_step have st': "persons st' = ?ps[i := popped_person (?ps ! i)]" by auto
    from discard head_step.IH have "I (popped_person (?ps ! i))"
      by (intro assms(3)) auto
    with head_step.IH st' show ?thesis
      using set_update_subset_insert[of ?ps i] by auto
  next
    case (meet i)
    with head_step show ?thesis by simp
  next
    case (raise i)
    with head_step show ?thesis by simp
  next
    case (advance i pushes)
    with head_step have st': "persons st'
      = ?ps[i := (settled_person (?ps ! i))
               \<lparr>pq := pq (settled_person (?ps ! i)) @ stamps (counter st) pushes\<rparr>]"
      by auto
    from advance head_step.IH
    have "I ((settled_person (?ps ! i))
               \<lparr>pq := pq (settled_person (?ps ! i)) @ stamps (counter st) pushes\<rparr>)"
      by (intro assms(4)) auto
    with head_step.IH st' show ?thesis
      using set_update_subset_insert[of ?ps i] by auto
  qed
qed

lemma search_state_persons:
  assumes st: "search_state m f cfg inps st"
    and inv: "\<And>s. loop_head m f cfg inps s \<Longrightarrow> \<forall>P \<in> set (persons s). I P"
    and keep: "\<And>P. I P \<Longrightarrow> J P"
    and final: "\<And>P. I P \<Longrightarrow> pq P \<noteq> []
        \<Longrightarrow> to_stop (entry_info (heap_top (pq P))) \<notin> visited_stops P
        \<Longrightarrow> J (settled_person P)"
  shows "\<forall>P \<in> set (persons st). J P"
proof -
  from st consider (head) "loop_head m f cfg inps st"
    | (brk) s r where "loop_head m f cfg inps s" "loop_body m f cfg s = Break r st"
    by (auto simp: search_state_def)
  then show ?thesis
  proof cases
    case head
    with inv keep show ?thesis by blast
  next
    case (brk s r)
    let ?ps = "persons s"
    from brk(1) have I: "\<forall>P \<in> set ?ps. I P" by (rule inv)
    show ?thesis
    proof (cases rule: loop_body_cases[where st=s and m=m and f=f and cfg=cfg])
      case none
      with brk I keep show ?thesis by auto
    next
      case (cap i)
      with brk I keep show ?thesis by auto
    next
      case (discard i)
      with brk show ?thesis by simp
    next
      case (meet i)
      with brk have st': "persons st = ?ps[i := settled_person (?ps ! i)]" by auto
      from meet I have "J (settled_person (?ps ! i))" by (intro final) auto
      with I keep st' show ?thesis
        using set_update_subset_insert[of ?ps i] by auto
    next
      case (raise i)
      with brk show ?thesis by simp
    next
      case (advance i pushes)
      with brk show ?thesis by simp
    qed
  qed
qed

section \<open>Walk tables\<close>

lemma add_walk_row_fst:
  "set (fst (add_walk_row src r tabs) u)
   = set (fst tabs u)
     \<union> {e. \<exists>x. w_time r = Some x \<and> w_from_stop_id r = u \<and> truthy u
            \<and> truthy (w_to_stop_id r) \<and> e = (w_to_stop_id r, max 30 x, src)}"
  by (cases tabs) (auto simp: add_walk_row_def split: option.splits)

lemma add_walk_row_snd:
  "snd (add_walk_row src r tabs)
   = snd tabs
     \<union> {pr. \<exists>x. w_time r = Some x \<and> truthy (w_from_stop_id r) \<and> truthy (w_to_stop_id r)
            \<and> pr = (w_from_stop_id r, w_to_stop_id r)}"
  by (cases tabs) (auto simp: add_walk_row_def split: option.splits)

lemma fold_add_walk_row_fst:
  "set (fst (fold (add_walk_row src) rows tabs) u)
   = set (fst tabs u)
     \<union> {e. \<exists>r \<in> set rows. \<exists>x. w_time r = Some x \<and> w_from_stop_id r = u \<and> truthy u
            \<and> truthy (w_to_stop_id r) \<and> e = (w_to_stop_id r, max 30 x, src)}"
proof (induction rows arbitrary: tabs)
  case Nil
  then show ?case by simp
next
  case (Cons r rows)
  show ?case
    unfolding fold_Cons comp_apply Cons.IH add_walk_row_fst by auto
qed

lemma fold_add_walk_row_snd:
  "snd (fold (add_walk_row src) rows tabs)
   = snd tabs
     \<union> {pr. \<exists>r \<in> set rows. \<exists>x. w_time r = Some x \<and> truthy (w_from_stop_id r)
            \<and> truthy (w_to_stop_id r) \<and> pr = (w_from_stop_id r, w_to_stop_id r)}"
proof (induction rows arbitrary: tabs)
  case Nil
  then show ?case by simp
next
  case (Cons r rows)
  show ?case
    unfolding fold_Cons comp_apply Cons.IH add_walk_row_snd by auto
qed

text \<open>
  The edges that are ingested: the pathway and transfer rows with a time whose two stop
  ids are both true in the sense of \<open>if fr and to\<close>.
\<close>

lemma walk_edges_mem:
  "(to, tt, src) \<in> set (walk_edges f u)
   \<longleftrightarrow> (\<exists>r x. (r \<in> set (pathways f) \<and> src = PATHWAYS \<or> r \<in> set (transfers f) \<and> src = TRANSFERS)
          \<and> w_time r = Some x \<and> w_from_stop_id r = u \<and> truthy u
          \<and> w_to_stop_id r = to \<and> truthy to \<and> tt = max 30 x)"
  unfolding walk_edges_def build_walk_tables_def fold_add_walk_row_fst
  by auto

lemma provided_pairs_mem:
  "(u, v) \<in> provided_pairs f
   \<longleftrightarrow> (\<exists>r x. (r \<in> set (pathways f) \<or> r \<in> set (transfers f))
          \<and> w_time r = Some x \<and> w_from_stop_id r = u \<and> truthy u
          \<and> w_to_stop_id r = v \<and> truthy v)"
  unfolding provided_pairs_def build_walk_tables_def fold_add_walk_row_snd
  by auto

lemma provided_pairs_walk_edges:
  "(u, v) \<in> provided_pairs f \<longleftrightarrow> (\<exists>tt src. (v, tt, src) \<in> set (walk_edges f u))"
  unfolding provided_pairs_mem walk_edges_mem by blast

section \<open>What an expansion pushes\<close>

lemma those_map:
  "those (map g xs) = Some ys
   \<Longrightarrow> p \<in> set (concat ys) \<longleftrightarrow> (\<exists>x \<in> set xs. \<exists>y. g x = Some y \<and> p \<in> set y)"
proof (induction xs arbitrary: ys)
  case Nil
  then show ?case by simp
next
  case (Cons x xs)
  from Cons.prems obtain y ys' where y: "g x = Some y" "those (map g xs) = Some ys'" "ys = y # ys'"
    by (auto split: option.splits)
  from Cons.IH[OF y(2)] y show ?case by auto
qed

lemma those_map_Some:
  "those (map g xs) = Some ys \<Longrightarrow> x \<in> set xs \<Longrightarrow> \<exists>y. g x = Some y"
  by (induction xs arbitrary: ys) (auto split: option.splits)

lemma pathway_transfer_pushes_mem:
  "p \<in> set (pathway_transfer_pushes f u t a ow)
   \<longleftrightarrow> (\<exists>to tt src. (to, tt, src) \<in> set (walk_edges f u)
          \<and> p = ((a + tt, t + tt, to),
                 \<lparr>owner = ow, mode = WALK, source = Some src, from_stop = Some u,
                  to_stop = to, trip_id = None, walk_sec = Some tt, wait_sec = None,
                  ride_sec = None, depart_sec = t, arrive_sec = t + tt,
                  distance_m = None\<rparr>))"
  by (force simp: pathway_transfer_pushes_def image_iff)

lemma geo_push_mem:
  "geo_push m f u t a ow (cand, d) = Some ps \<Longrightarrow>
   p \<in> set ps
   \<longleftrightarrow> \<not> fl_gt m d (MAX_WALK_RADIUS_M m) \<and> (u, cand) \<notin> provided_pairs f
       \<and> (\<exists>q c dm. fl_div m d (WALK_SPEED_MPS m) = Some q \<and> fl_ceil m q = Some c
            \<and> max 30 c \<le> MAX_WALK_TIME_S \<and> fl_round m d = Some dm
            \<and> p = ((a + max 30 c, t + max 30 c, cand),
                   \<lparr>owner = ow, mode = WALK, source = Some GEO, from_stop = Some u,
                    to_stop = cand, trip_id = None, walk_sec = Some (max 30 c),
                    wait_sec = None, ride_sec = None, depart_sec = t,
                    arrive_sec = t + max 30 c, distance_m = Some dm\<rparr>))"
  by (auto simp: geo_push_def Let_def split: if_splits Option.bind_splits)

lemma geo_pushes_mem:
  "geo_pushes m f u t a ow = Some g \<Longrightarrow>
   p \<in> set g
   \<longleftrightarrow> (\<exists>near cand d ps. nearby_stops_within_radius m f u (MAX_WALK_RADIUS_M m) = Some near
          \<and> (cand, d) \<in> set near \<and> geo_push m f u t a ow (cand, d) = Some ps \<and> p \<in> set ps)"
proof -
  assume g: "geo_pushes m f u t a ow = Some g"
  then obtain near pss where n: "nearby_stops_within_radius m f u (MAX_WALK_RADIUS_M m) = Some near"
      "those (map (geo_push m f u t a ow) near) = Some pss" "g = concat pss"
    by (auto simp: geo_pushes_def split: Option.bind_splits)
  from those_map[OF n(2), of p] n show ?thesis by auto
qed

lemma ride_push_mem:
  "p \<in> set (ride_push m f u t a ow r1 dep r2)
   \<longleftrightarrow> (\<exists>arr. arr_sec m f r2 = Some arr
          \<and> p = ((a + ((dep - t) + (arr - dep)), arr, st_stop_id r2),
                 \<lparr>owner = ow, mode = RIDE, source = None, from_stop = Some u,
                  to_stop = st_stop_id r2, trip_id = Some (st_trip_id r1),
                  walk_sec = None, wait_sec = Some (dep - t), ride_sec = Some (arr - dep),
                  depart_sec = dep, arrive_sec = arr, distance_m = None\<rparr>))"
  by (auto simp: ride_push_def Let_def split: option.splits)

lemma rows_at_stop_mem:
  "r \<in> set (rows_at_stop m f u) \<longleftrightarrow> r \<in> set (stop_times f) \<and> st_stop_id r = u \<and> u \<noteq> IdNaN"
  by (auto simp: rows_at_stop_def stop_times_sorted_def)

lemma trip_groups_mem:
  "trip_groups f tid = Some g \<Longrightarrow>
   r \<in> set g \<longleftrightarrow> r \<in> set (stop_times f) \<and> st_trip_id r = tid"
  by (auto simp: trip_groups_def stop_times_sorted_def split: if_splits)

lemma rides_of_row_mem:
  "rides_of_row m f u t a ow r1 = Some ps \<Longrightarrow>
   p \<in> set ps
   \<longleftrightarrow> (\<exists>dep r2. dep_sec m f r1 = Some dep \<and> r2 \<in> set (stop_times f)
          \<and> st_trip_id r2 = st_trip_id r1 \<and> seq_after r1 r2
          \<and> p \<in> set (ride_push m f u t a ow r1 dep r2))"
proof (cases "dep_sec m f r1")
  case None
  assume "rides_of_row m f u t a ow r1 = Some ps"
  with None show ?thesis by (simp add: rides_of_row_def)
next
  case (Some dep)
  assume "rides_of_row m f u t a ow r1 = Some ps"
  with Some obtain g where g: "trip_groups f (st_trip_id r1) = Some g"
    "ps = concat (map (ride_push m f u t a ow r1 dep) (filter (seq_after r1) g))"
    by (auto simp: rides_of_row_def)
  show ?thesis
    unfolding g(2) using Some trip_groups_mem[OF g(1)] by auto
qed

lemma ride_pushes_mem:
  "ride_pushes m f u t a ow = Some ps \<Longrightarrow>
   p \<in> set ps
   \<longleftrightarrow> (\<exists>r1 r2 dep. r1 \<in> set (stop_times f) \<and> st_stop_id r1 = u \<and> u \<noteq> IdNaN
          \<and> dep_sec m f r1 = Some dep \<and> departs_from m f t r1
          \<and> r2 \<in> set (stop_times f) \<and> st_trip_id r2 = st_trip_id r1
          \<and> seq_after r1 r2
          \<and> p \<in> set (ride_push m f u t a ow r1 dep r2))"
proof -
  let ?rows = "filter (departs_from m f t) (rows_at_stop m f u)"
  assume "ride_pushes m f u t a ow = Some ps"
  then obtain pss where pss: "those (map (rides_of_row m f u t a ow) ?rows) = Some pss"
      "ps = concat pss"
    by (auto simp: ride_pushes_def)
  have "p \<in> set ps \<longleftrightarrow> (\<exists>r1 \<in> set ?rows. \<exists>y. rides_of_row m f u t a ow r1 = Some y \<and> p \<in> set y)"
    unfolding pss(2) by (rule those_map[OF pss(1)])
  also have "\<dots> \<longleftrightarrow> (\<exists>r1 r2 dep. r1 \<in> set (stop_times f) \<and> st_stop_id r1 = u \<and> u \<noteq> IdNaN
          \<and> dep_sec m f r1 = Some dep \<and> departs_from m f t r1
          \<and> r2 \<in> set (stop_times f) \<and> st_trip_id r2 = st_trip_id r1
          \<and> seq_after r1 r2
          \<and> p \<in> set (ride_push m f u t a ow r1 dep r2))" (is "?L \<longleftrightarrow> ?R")
  proof
    assume ?L
    then obtain r1 y where r1: "r1 \<in> set ?rows" "rides_of_row m f u t a ow r1 = Some y" "p \<in> set y"
      by blast
    from rides_of_row_mem[OF r1(2), of p] r1(3) obtain dep r2 where
      "dep_sec m f r1 = Some dep" "r2 \<in> set (stop_times f)" "st_trip_id r2 = st_trip_id r1"
      "seq_after r1 r2" "p \<in> set (ride_push m f u t a ow r1 dep r2)"
      by blast
    with r1(1) show ?R by (auto simp: rows_at_stop_mem)
  next
    assume ?R
    then obtain r1 r2 dep where h: "r1 \<in> set (stop_times f)" "st_stop_id r1 = u" "u \<noteq> IdNaN"
      "dep_sec m f r1 = Some dep" "departs_from m f t r1" "r2 \<in> set (stop_times f)"
      "st_trip_id r2 = st_trip_id r1" "seq_after r1 r2"
      "p \<in> set (ride_push m f u t a ow r1 dep r2)"
      by blast
    then have in_rows: "r1 \<in> set ?rows" by (simp add: rows_at_stop_mem)
    from those_map_Some[OF pss(1) in_rows] obtain y where y: "rides_of_row m f u t a ow r1 = Some y"
      by blast
    from h have "p \<in> set y" unfolding rides_of_row_mem[OF y] by blast
    with in_rows y show ?L by blast
  qed
  finally show ?thesis .
qed

lemma expansion_pushes_mem:
  "expansion_pushes m f u t a ow = Some ps \<Longrightarrow>
   p \<in> set ps
   \<longleftrightarrow> p \<in> set (pathway_transfer_pushes f u t a ow)
       \<or> (\<exists>g. geo_pushes m f u t a ow = Some g \<and> p \<in> set g)
       \<or> (\<exists>r. ride_pushes m f u t a ow = Some r \<and> p \<in> set r)"
  by (auto simp: expansion_pushes_def split: Option.bind_splits)

section \<open>Invariants of the frontier entries\<close>

lemma stamp_simps:
  "entry_accum (stamp c ((a, t, d), i)) = a"
  "entry_arr (stamp c ((a, t, d), i)) = t"
  "entry_dest (stamp c ((a, t, d), i)) = d"
  "entry_info (stamp c ((a, t, d), i)) = i"
  by (simp_all add: entry_accum_def entry_arr_def entry_dest_def entry_info_def)

lemma start_info_simps:
  "owner (start_info lbl s t) = lbl"
  "mode (start_info lbl s t) = START"
  "to_stop (start_info lbl s t) = s"
  "arrive_sec (start_info lbl s t) = t"
  "from_stop (start_info lbl s t) = None"
  "source (start_info lbl s t) = None"
  by (simp_all add: start_info_def)

text \<open>
  A property of entries that the START entries have and that passes from a popped entry
  to everything its expansion pushes holds for every entry of every frontier.
\<close>

lemma loop_head_entries:
  assumes head: "loop_head m f cfg inps st"
    and start: "\<And>c lbl s. (lbl, s) \<in> set inps
        \<Longrightarrow> Q (stamp c ((0, T0 cfg, s), start_info lbl s (T0 cfg)))"
    and step: "\<And>e c p ps. Q e
        \<Longrightarrow> expansion_pushes m f (to_stop (entry_info e)) (arrive_sec (entry_info e))
              (entry_accum e) (owner (entry_info e)) = Some ps
        \<Longrightarrow> p \<in> set ps \<Longrightarrow> Q (stamp c p)"
  shows "\<forall>P \<in> set (persons st). \<forall>e \<in> set (pq P). Q e"
  using head
proof (rule loop_head_persons)
  fix c inp c' and P :: person
  assume inp: "inp \<in> set inps" and ip: "init_person m f cfg c inp = Some (P, c')"
  obtain lbl s where ls: "inp = (lbl, s)" by (cases inp)
  let ?e0 = "stamp (Suc c) ((0, T0 cfg, s), start_info lbl s (T0 cfg))"
  from ip ls obtain pushes where
    ex: "expansion_pushes m f s (T0 cfg) 0 lbl = Some pushes"
    and P: "pq P = ?e0 # stamps (Suc c) pushes"
    by (auto elim!: init_person_Some)
  have q0: "Q ?e0" using inp ls by (intro start) simp
  show "\<forall>e \<in> set (pq P). Q e"
  proof
    fix e assume "e \<in> set (pq P)"
    with P consider "e = ?e0" | "e \<in> set (stamps (Suc c) pushes)" by auto
    then show "Q e"
    proof cases
      case 1
      with q0 show ?thesis by simp
    next
      case 2
      then obtain p k where "p \<in> set pushes" "e = stamp k p" by (blast dest: stamps_mem)
      moreover have "expansion_pushes m f (to_stop (entry_info ?e0)) (arrive_sec (entry_info ?e0))
              (entry_accum ?e0) (owner (entry_info ?e0)) = Some pushes"
        using ex by (simp add: entry_info_def entry_accum_def start_info_simps)
      ultimately show ?thesis using q0 by (simp add: step)
    qed
  qed
next
  fix P :: person
  assume "\<forall>e \<in> set (pq P). Q e"
  then show "\<forall>e \<in> set (pq (popped_person P)). Q e"
    using set_heappop[of "pq P"] by (auto simp: popped_person_simps)
next
  fix c pushes and P :: person
  let ?tp = "heap_top (pq P)"
  assume I: "\<forall>e \<in> set (pq P). Q e" and ne: "pq P \<noteq> []"
    and ex: "expansion_pushes m f (to_stop (entry_info ?tp)) (arrive_sec (entry_info ?tp))
               (entry_accum ?tp) (owner (entry_info ?tp)) = Some pushes"
  from I ne have tp: "Q ?tp" by (simp add: heap_top_in)
  show "\<forall>e \<in> set (pq ((settled_person P)\<lparr>pq := pq (settled_person P) @ stamps c pushes\<rparr>)). Q e"
  proof
    fix e assume "e \<in> set (pq ((settled_person P)\<lparr>pq := pq (settled_person P) @ stamps c pushes\<rparr>))"
    then consider "e \<in> set (heappop (pq P))" | "e \<in> set (stamps c pushes)"
      by (auto simp: settled_person_simps)
    then show "Q e"
    proof cases
      case 1
      with I show ?thesis using set_heappop[of "pq P"] by auto
    next
      case 2
      then obtain p k where "p \<in> set pushes" "e = stamp k p" by (blast dest: stamps_mem)
      with tp ex show ?thesis by (simp add: step)
    qed
  qed
qed

lemma search_state_entries:
  assumes st: "search_state m f cfg inps st"
    and start: "\<And>c lbl s. (lbl, s) \<in> set inps
        \<Longrightarrow> Q (stamp c ((0, T0 cfg, s), start_info lbl s (T0 cfg)))"
    and step: "\<And>e c p ps. Q e
        \<Longrightarrow> expansion_pushes m f (to_stop (entry_info e)) (arrive_sec (entry_info e))
              (entry_accum e) (owner (entry_info e)) = Some ps
        \<Longrightarrow> p \<in> set ps \<Longrightarrow> Q (stamp c p)"
  shows "\<forall>P \<in> set (persons st). \<forall>e \<in> set (pq P). Q e"
  using st
proof (rule search_state_persons[where I = "\<lambda>P. \<forall>e \<in> set (pq P). Q e"])
  fix s assume "loop_head m f cfg inps s"
  then show "\<forall>P \<in> set (persons s). \<forall>e \<in> set (pq P). Q e"
    using start step by (rule loop_head_entries)
next
  fix P :: person assume "\<forall>e \<in> set (pq P). Q e"
  then show "\<forall>e \<in> set (pq (settled_person P)). Q e"
    using set_heappop[of "pq P"] by (auto simp: settled_person_simps)
qed simp

section \<open>The spatial query\<close>

lemma scan_cands_sound:
  "scan_cands m f sid lat0 lon0 cs seen = Some out \<Longrightarrow>
   distinct (map fst out)
   \<and> (\<forall>(cand, d) \<in> set out. \<not> py_eq cand sid \<and> cand \<notin> seen \<and> cand \<in> set cs
        \<and> (\<exists>lat lon. map_of (stop_lat f) cand = Some lat
              \<and> map_of (stop_lon f) cand = Some lon
              \<and> haversine_m m lat0 lon0 lat lon = Some d))"
proof (induction cs arbitrary: seen out)
  case Nil
  then show ?case by simp
next
  case (Cons cand cs)
  show ?case
  proof (cases "cand \<in> seen \<or> py_eq cand sid")
    case True
    with Cons.prems have "scan_cands m f sid lat0 lon0 cs seen = Some out" by simp
    from Cons.IH[OF this] show ?thesis by auto
  next
    case False
    with Cons.prems obtain lat lon d rest where
      ll: "map_of (stop_lat f) cand = Some lat" "map_of (stop_lon f) cand = Some lon"
      and d: "haversine_m m lat0 lon0 lat lon = Some d"
      and rest: "scan_cands m f sid lat0 lon0 cs (insert cand seen) = Some rest"
      and out: "out = (cand, d) # rest"
      by (auto split: Option.bind_splits)
    from Cons.IH[OF rest] have ih: "distinct (map fst rest)"
      "\<forall>(c, d) \<in> set rest. \<not> py_eq c sid \<and> c \<notin> insert cand seen \<and> c \<in> set cs
        \<and> (\<exists>lat lon. map_of (stop_lat f) c = Some lat
              \<and> map_of (stop_lon f) c = Some lon
              \<and> haversine_m m lat0 lon0 lat lon = Some d)"
      by auto
    from ih(2) have "cand \<notin> fst ` set rest" by force
    with ih False ll d out show ?thesis by auto
  qed
qed

lemma nearby_sound:
  assumes "nearby_stops_within_radius m f u r = Some near"
  shows "distinct (map fst near)"
    and "(cand, d) \<in> set near \<Longrightarrow> \<not> py_eq cand u \<and> stop_distance m f u cand = Some d"
proof -
  from assms obtain lat0 lon0 cs where
    ll: "map_of (stop_lat f) u = Some lat0" "map_of (stop_lon f) u = Some lon0"
    and sc: "scan_cands m f u lat0 lon0 cs {} = Some near"
    by (auto simp: nearby_stops_within_radius_def Let_def split: Option.bind_splits)
  from scan_cands_sound[OF sc] show "distinct (map fst near)" by simp
  assume "(cand, d) \<in> set near"
  with scan_cands_sound[OF sc] ll
  show "\<not> py_eq cand u \<and> stop_distance m f u cand = Some d"
    by (auto simp: stop_distance_def)
qed

section \<open>Walk durations\<close>

lemma walk_edges_floor: "(to, tt, src) \<in> set (walk_edges f u) \<Longrightarrow> 30 \<le> tt"
  by (auto simp: walk_edges_mem)

lemma expansion_walks:
  assumes ex: "expansion_pushes m f u t a ow = Some ps" and p: "p \<in> set ps"
    and w: "mode (snd p) = WALK"
  shows "from_stop (snd p) = Some u
    \<and> (\<exists>w. walk_sec (snd p) = Some w \<and> 30 \<le> w
         \<and> (source (snd p) = Some GEO \<longrightarrow>
              (u, to_stop (snd p)) \<notin> provided_pairs f
              \<and> (\<exists>d q c. stop_distance m f u (to_stop (snd p)) = Some d
                    \<and> \<not> fl_gt m d (MAX_WALK_RADIUS_M m)
                    \<and> fl_div m d (WALK_SPEED_MPS m) = Some q \<and> fl_ceil m q = Some c
                    \<and> w = max 30 c))
         \<and> (source (snd p) \<noteq> Some GEO \<longrightarrow>
              (\<exists>src. (to_stop (snd p), w, src) \<in> set (walk_edges f u))))"
proof -
  from ex p consider
    (pw) "p \<in> set (pathway_transfer_pushes f u t a ow)"
  | (geo) g where "geo_pushes m f u t a ow = Some g" "p \<in> set g"
  | (ride) r where "ride_pushes m f u t a ow = Some r" "p \<in> set r"
    by (auto simp: expansion_pushes_mem)
  then show ?thesis
  proof cases
    case pw
    then obtain to tt src where e: "(to, tt, src) \<in> set (walk_edges f u)"
      and p: "snd p = \<lparr>owner = ow, mode = WALK, source = Some src, from_stop = Some u,
                  to_stop = to, trip_id = None, walk_sec = Some tt, wait_sec = None,
                  ride_sec = None, depart_sec = t, arrive_sec = t + tt,
                  distance_m = None\<rparr>"
      by (auto simp: pathway_transfer_pushes_mem)
    from e have "30 \<le> tt" by (rule walk_edges_floor)
    moreover from e have "(u, to) \<in> provided_pairs f"
      by (auto simp: provided_pairs_walk_edges)
    moreover from e have "src \<noteq> GEO" by (auto simp: walk_edges_mem)
    ultimately show ?thesis using e p by auto
  next
    case (geo g)
    then obtain near cand d ps' where
      near: "nearby_stops_within_radius m f u (MAX_WALK_RADIUS_M m) = Some near"
      and cd: "(cand, d) \<in> set near" and gp: "geo_push m f u t a ow (cand, d) = Some ps'"
      and pp: "p \<in> set ps'"
      by (auto simp: geo_pushes_mem)
    from nearby_sound(2)[OF near cd] have "stop_distance m f u cand = Some d" by simp
    with pp show ?thesis unfolding geo_push_mem[OF gp] by auto
  next
    case (ride r)
    with w show ?thesis by (auto simp: ride_pushes_mem ride_push_mem)
  qed
qed

text \<open>What holds of every WALK entry of a frontier.\<close>

lemma walk_entries:
  assumes "search_state m f cfg inps st" "P \<in> set (persons st)" "e \<in> set (pq P)"
    and "mode (entry_info e) = WALK"
  shows "\<exists>u w. from_stop (entry_info e) = Some u \<and> walk_sec (entry_info e) = Some w \<and> 30 \<le> w
         \<and> (source (entry_info e) = Some GEO \<longrightarrow>
              (u, to_stop (entry_info e)) \<notin> provided_pairs f
              \<and> (\<exists>d q c. stop_distance m f u (to_stop (entry_info e)) = Some d
                    \<and> \<not> fl_gt m d (MAX_WALK_RADIUS_M m)
                    \<and> fl_div m d (WALK_SPEED_MPS m) = Some q \<and> fl_ceil m q = Some c
                    \<and> w = max 30 c))"
proof -
  let ?Q = "\<lambda>e. mode (entry_info e) = WALK \<longrightarrow>
     (\<exists>u w. from_stop (entry_info e) = Some u \<and> walk_sec (entry_info e) = Some w \<and> 30 \<le> w
         \<and> (source (entry_info e) = Some GEO \<longrightarrow>
              (u, to_stop (entry_info e)) \<notin> provided_pairs f
              \<and> (\<exists>d q c. stop_distance m f u (to_stop (entry_info e)) = Some d
                    \<and> \<not> fl_gt m d (MAX_WALK_RADIUS_M m)
                    \<and> fl_div m d (WALK_SPEED_MPS m) = Some q \<and> fl_ceil m q = Some c
                    \<and> w = max 30 c)))"
  have "\<forall>P \<in> set (persons st). \<forall>e \<in> set (pq P). ?Q e"
    using assms(1)
  proof (rule search_state_entries)
    fix c lbl s
    show "?Q (stamp c ((0, T0 cfg, s), start_info lbl s (T0 cfg)))"
      by (simp add: entry_info_def start_info_simps)
  next
    fix e' :: entry and n p ps
    assume ex: "expansion_pushes m f (to_stop (entry_info e')) (arrive_sec (entry_info e'))
              (entry_accum e') (owner (entry_info e')) = Some ps" and p: "p \<in> set ps"
    obtain a t d i where pe: "p = ((a, t, d), i)" by (metis surj_pair)
    show "?Q (stamp n p)"
    proof
      assume "mode (entry_info (stamp n p))= WALK"
      with pe have "mode (snd p) = WALK" by (simp add: entry_info_def)
      from expansion_walks[OF ex p this] pe
      show "\<exists>u w. from_stop (entry_info (stamp n p)) = Some u
         \<and> walk_sec (entry_info (stamp n p)) = Some w \<and> 30 \<le> w
         \<and> (source (entry_info (stamp n p)) = Some GEO \<longrightarrow>
              (u, to_stop (entry_info (stamp n p))) \<notin> provided_pairs f
              \<and> (\<exists>d q c. stop_distance m f u (to_stop (entry_info (stamp n p))) = Some d
                    \<and> \<not> fl_gt m d (MAX_WALK_RADIUS_M m)
                    \<and> fl_div m d (WALK_SPEED_MPS m) = Some q \<and> fl_ceil m q = Some c
                    \<and> w = max 30 c))"
        by (simp add: entry_info_def) blast
    qed
  qed
  with assms show ?thesis by blast
qed

section \<open>Evaluation of the worked example\<close>

lemma rm_simps:
  "fl_lit real_machine x = x"
  "fl_add real_machine x y = x + y"
  "fl_sub real_machine x y = x - y"
  "fl_mul real_machine x y = x * y"
  "fl_div real_machine x y = (if y = 0 then None else Some (x / y))"
  "fl_sq real_machine x = Some (x * x)"
  "fl_radians real_machine x = x * pi / 180"
  "fl_sin real_machine x = Some (sin x)"
  "fl_cos real_machine x = Some (cos x)"
  "fl_sqrt real_machine x = (if x < 0 then None else Some (sqrt x))"
  "fl_asin real_machine x = (if - 1 \<le> x \<and> x \<le> 1 then Some (arcsin x) else None)"
  "fl_floor real_machine x = Some \<lfloor>x\<rfloor>"
  "fl_ceil real_machine x = Some \<lceil>x\<rceil>"
  "fl_round real_machine x = Some (py_round x)"
  "fl_gt real_machine x y = (y < x)"
  "col_int real_machine col v = v"
  "max_str_digits real_machine = Some 4300"
  by (simp_all add: real_machine_def)

lemma ex_stop_lat:
  "stop_lat ex_feed = [(IdStr ''A1'', 0), (IdStr ''A2'', 0), (IdStr ''B1'', 0), (IdStr ''C1'', 1)]"
  by (simp add: stop_lat_def ex_feed_def dict_zip_def)

lemma ex_stop_lon:
  "stop_lon ex_feed = [(IdStr ''A1'', 0), (IdStr ''A2'', 0), (IdStr ''B1'', 0), (IdStr ''C1'', 1)]"
  by (simp add: stop_lon_def ex_feed_def dict_zip_def)

lemma radius_780: "MAX_WALK_RADIUS_M real_machine = 780"
  by (simp add: MAX_WALK_RADIUS_M_def WALK_SPEED_MPS_def MAX_WALK_TIME_S_def rm_simps)

lemma ex_grid:
  "grid real_machine ex_feed
   = Some (\<lambda>c. if c = (250, 142) then [IdStr ''C1'']
               else if c = (0, 0) then [IdStr ''A1'', IdStr ''A2'', IdStr ''B1''] else [])"
proof -
  have c0: "cell_for real_machine 0 0 = Some (0, 0)"
    by (simp add: cell_for_def DLAT_def DLON_def rm_simps)
  have c1: "cell_for real_machine 1 1 = Some (250, 142)"
    by (simp add: cell_for_def DLAT_def DLON_def rm_simps)
  show ?thesis
    by (simp add: grid_def grid_add_def ex_stop_lat ex_stop_lon c0 c1 fun_eq_iff)
qed

lemma haversine_same: "haversine_m real_machine x y x y = Some 0"
  by (simp add: haversine_m_def rm_simps Let_def)

lemmas nearby_eval = nearby_stops_within_radius_def cell_for_def DLAT_def DLON_def
  neighbourhood_def Let_def upto.simps rm_simps py_eq_def

lemma ex_nearby_A1:
  "nearby_stops_within_radius real_machine ex_feed (IdStr ''A1'') 780
   = Some [(IdStr ''A2'', 0), (IdStr ''B1'', 0)]"
  by (simp add: nearby_eval ex_stop_lat ex_stop_lon ex_grid haversine_same)

lemma ex_nearby_B1:
  "nearby_stops_within_radius real_machine ex_feed (IdStr ''B1'') 780
   = Some [(IdStr ''A1'', 0), (IdStr ''A2'', 0)]"
  by (simp add: nearby_eval ex_stop_lat ex_stop_lon ex_grid haversine_same)

lemma ex_walk_edges:
  "walk_edges ex_feed = (\<lambda>u. if u = IdStr ''A1'' then [(IdStr ''A2'', 120, PATHWAYS)] else [])"
  by (rule ext) (simp add: walk_edges_def build_walk_tables_def ex_feed_def add_walk_row_def)

lemma ex_provided: "provided_pairs ex_feed = {(IdStr ''A1'', IdStr ''A2'')}"
  by (simp add: provided_pairs_def build_walk_tables_def ex_feed_def add_walk_row_def)

lemmas time_eval = to_seconds_def parsed_def strip_def is_space_def is_digit_def
  int_of_digits_def too_many_digits_def dep_sec_def arr_sec_def dep_col_def arr_col_def rm_simps

lemmas ride_eval = ride_pushes_def rows_at_stop_def departs_from_def rides_of_row_def
  trip_groups_def stop_times_sorted_def nan_last_def ride_push_def seq_after_def Let_def

lemma ex_rides_A1:
  "ride_pushes real_machine ex_feed (IdStr ''A1'') 46800 0 ow = Some [ex_pushes_A1 ow ! 2]"
  by (simp add: ride_eval ex_feed_def time_eval ex_pushes_A1_def)

lemma ex_rides_B1: "ride_pushes real_machine ex_feed (IdStr ''B1'') t a ow = Some []"
  by (simp add: ride_eval ex_feed_def time_eval)

lemmas geo_eval = expansion_pushes_def geo_pushes_def radius_780 geo_push_def
  pathway_transfer_pushes_def WALK_SPEED_MPS_def MAX_WALK_TIME_S_def py_round_def rm_simps

lemma ex_expand_A1:
  "expansion_pushes real_machine ex_feed (IdStr ''A1'') 46800 0 ow = Some (ex_pushes_A1 ow)"
  by (simp add: geo_eval ex_nearby_A1 ex_provided ex_walk_edges ex_rides_A1 ex_pushes_A1_def
      walk_info_def)

lemma ex_expand_B1:
  "expansion_pushes real_machine ex_feed (IdStr ''B1'') 46800 0 ow = Some (ex_pushes_B1 ow)"
  by (simp add: geo_eval ex_nearby_B1 ex_provided ex_walk_edges ex_rides_B1 ex_pushes_B1_def
      walk_info_def)

lemma ex_ingest: "ingest_ok real_machine ex_feed"
  by (simp add: ingest_ok_def ex_grid sortable_def)
     (simp add: ex_feed_def time_eval)

lemma ex_init_search:
  "T0 cfg = 46800 \<Longrightarrow> init_search real_machine ex_feed cfg ex_inputs = Some ex_init"
  by (simp add: init_search_def ex_ingest ex_inputs_def init_person_def expand_eq ex_expand_A1
      ex_expand_B1 push_all_eq heappush_def ex_init_def ex_A0_def ex_B0_def
      ex_pushes_A1_def ex_pushes_B1_def)

lemmas loop_eval = loop_body_def pop_global_def candidates_def heap_top_def heappop_def
  key_of_def entry_accum_def entry_info_def settle_def Let_def enumerate_eq_zip

lemmas ex_defs = ex_init_def ex_A0_def ex_B0_def ex_pushes_A1_def ex_pushes_B1_def
  ex_st1_def ex_A1s_def ex_st2_def ex_B1s_def ex_final_def ex_B2s_def walk_info_def
  start_info_def

lemma ex_step1:
  "T0 cfg = 46800 \<Longrightarrow> 0 \<le> MAX_TRIP_TIME_S cfg
   \<Longrightarrow> loop_body real_machine ex_feed cfg ex_init = Continue ex_st1"
  by (simp add: loop_eval ex_defs expand_eq push_all_eq
      ex_expand_A1[unfolded ex_pushes_A1_def walk_info_def])

lemma ex_step2:
  "T0 cfg = 46800 \<Longrightarrow> 0 \<le> MAX_TRIP_TIME_S cfg
   \<Longrightarrow> loop_body real_machine ex_feed cfg ex_st1 = Continue ex_st2"
  by (simp add: loop_eval ex_defs expand_eq push_all_eq
      ex_expand_B1[unfolded ex_pushes_B1_def walk_info_def])

lemma ex_step3:
  "30 \<le> MAX_TRIP_TIME_S cfg
   \<Longrightarrow> loop_body real_machine ex_feed cfg ex_st2 = Break (Some (OK (IdStr ''A1''))) ex_final"
  by (simp add: loop_eval ex_defs)

lemma ex_step3_cap:
  "MAX_TRIP_TIME_S cfg < 30
   \<Longrightarrow> loop_body real_machine ex_feed cfg ex_st2 = Break (Some (CAP 1)) ex_st2"
  by (simp add: loop_eval ex_defs)

lemma ex_report:
  "final_report ex_final (IdStr ''A1'')
   = Some \<lparr>meet_time = 46830, max_elapsed = 30, spread = 30\<rparr>"
  by (simp add: final_report_def ex_defs py_max_def py_min_def)

lemma ex_head_init: "T0 cfg = 46800 \<Longrightarrow> loop_head real_machine ex_feed cfg ex_inputs ex_init"
  by (rule head_init) (rule ex_init_search)

lemma ex_head_st1:
  "T0 cfg = 46800 \<Longrightarrow> 0 \<le> MAX_TRIP_TIME_S cfg
   \<Longrightarrow> loop_head real_machine ex_feed cfg ex_inputs ex_st1"
  by (rule head_step[OF ex_head_init ex_step1])

lemma ex_head_st2:
  "T0 cfg = 46800 \<Longrightarrow> 0 \<le> MAX_TRIP_TIME_S cfg
   \<Longrightarrow> loop_head real_machine ex_feed cfg ex_inputs ex_st2"
  by (rule head_step[OF ex_head_st1 ex_step2])

lemma ex_search_init: "search_state real_machine ex_feed source_config ex_inputs ex_init"
  unfolding search_state_def by (rule disjI1, rule ex_head_init) (simp add: source_config_def)


lemma ex_search_final: "search_state real_machine ex_feed source_config ex_inputs ex_final"
  unfolding search_state_def
proof (rule disjI2, intro exI conjI)
  show "loop_head real_machine ex_feed source_config ex_inputs ex_st2"
    by (rule ex_head_st2) (simp_all add: source_config_def)
  show "loop_body real_machine ex_feed source_config ex_st2
        = Break (Some (OK (IdStr ''A1''))) ex_final"
    by (rule ex_step3) (simp add: source_config_def)
qed

section \<open>Elapsed time and arrival time move together\<close>

lemma entry_simps:
  "entry_accum (a, t, d, c, i) = a"
  "entry_arr (a, t, d, c, i) = t"
  "entry_dest (a, t, d, c, i) = d"
  "entry_counter (a, t, d, c, i) = c"
  "entry_info (a, t, d, c, i) = i"
  "key_of (a, t, d, c, i) = (a, t, id_key d, c)"
  by (simp_all add: entry_accum_def entry_arr_def entry_dest_def entry_counter_def
      entry_info_def key_of_def)

lemma expansion_keys:
  assumes ex: "expansion_pushes m f u t a ow = Some ps" and p: "p \<in> set ps"
  obtains a' t' d i where "p = ((a', t', d), i)" "t' - a' = t - a" "arrive_sec i = t'"
    "to_stop i = d" "owner i = ow" "mode i \<noteq> START" "from_stop i = Some u"
proof -
  from ex p consider
    (pw) "p \<in> set (pathway_transfer_pushes f u t a ow)"
  | (geo) g where "geo_pushes m f u t a ow = Some g" "p \<in> set g"
  | (ride) r where "ride_pushes m f u t a ow = Some r" "p \<in> set r"
    by (auto simp: expansion_pushes_mem)
  then show thesis
  proof cases
    case pw
    then show ?thesis by (auto simp: pathway_transfer_pushes_mem intro!: that)
  next
    case (geo g)
    then obtain cand d ps' where gp: "geo_push m f u t a ow (cand, d) = Some ps'" "p \<in> set ps'"
      by (auto simp: geo_pushes_mem)
    from gp(2) show ?thesis unfolding geo_push_mem[OF gp(1)] by (auto intro!: that)
  next
    case (ride r)
    then show ?thesis by (auto simp: ride_pushes_mem ride_push_mem intro!: that)
  qed
qed

lemma entries_lockstep:
  assumes "search_state m f cfg inps st" "P \<in> set (persons st)" "e \<in> set (pq P)"
  shows "entry_arr e = T0 cfg + entry_accum e \<and> arrive_sec (entry_info e) = entry_arr e
         \<and> to_stop (entry_info e) = entry_dest e"
proof -
  let ?Q = "\<lambda>e. entry_arr e = T0 cfg + entry_accum e \<and> arrive_sec (entry_info e) = entry_arr e
         \<and> to_stop (entry_info e) = entry_dest e"
  have "\<forall>P \<in> set (persons st). \<forall>e \<in> set (pq P). ?Q e"
    using assms(1)
  proof (rule search_state_entries)
    fix c lbl s
    show "?Q (stamp c ((0, T0 cfg, s), start_info lbl s (T0 cfg)))"
      by (simp add: entry_simps start_info_simps)
  next
    fix e' :: entry and c p ps
    assume q: "?Q e'"
      and ex: "expansion_pushes m f (to_stop (entry_info e')) (arrive_sec (entry_info e'))
              (entry_accum e') (owner (entry_info e')) = Some ps" and p: "p \<in> set ps"
    from ex p obtain a' t' d i where "p = ((a', t', d), i)"
      "t' - a' = arrive_sec (entry_info e') - entry_accum e'" "arrive_sec i = t'" "to_stop i = d"
      by (rule expansion_keys)
    with q show "?Q (stamp c p)" by (simp add: entry_simps)
  qed
  with assms show ?thesis by blast
qed

lemma accum_less_key_less: "entry_accum x < entry_accum y \<Longrightarrow> key_of x < key_of y"
  by (cases x, cases y) (simp add: key_of_def entry_accum_def less_prod_def)

section \<open>Claim about elapsed and absolute time\<close>

text \<open>
  C9, as stated: in some state of some search two persons hold frontier entries with the
  same accumulated elapsed time and different absolute arrival times. No search has such
  a state, since every person starts at the same \<open>T0\<close>.
\<close>

theorem same_elapsed_different_arrival_counterexample:
  "\<not> (\<exists>m f cfg inps st P1 P2 e1 e2.
        search_state m f cfg inps st \<and> P1 \<in> set (persons st) \<and> P2 \<in> set (persons st)
        \<and> e1 \<in> set (pq P1) \<and> e2 \<in> set (pq P2)
        \<and> entry_accum e1 = entry_accum e2 \<and> entry_arr e1 \<noteq> entry_arr e2)"
proof (rule notI, elim exE conjE)
  fix m f cfg inps st P1 P2 and e1 e2 :: entry
  assume st: "search_state m f cfg inps st" and P: "P1 \<in> set (persons st)" "P2 \<in> set (persons st)"
    and e: "e1 \<in> set (pq P1)" "e2 \<in> set (pq P2)"
    and eq: "entry_accum e1 = entry_accum e2" and ne: "entry_arr e1 \<noteq> entry_arr e2"
  from entries_lockstep[OF st P(1) e(1)] entries_lockstep[OF st P(2) e(2)] eq
  have "entry_arr e1 = entry_arr e2" by simp
  with ne show False by contradiction
qed

text \<open>
  C9, amended: in every state of the search every frontier entry of every person has the
  absolute arrival time \<open>T0 + e\<close>, where \<open>e\<close> is its accumulated elapsed time and
  \<open>T0\<close> the start time shared by all persons; so entries with the same \<open>e\<close> have the same
  arrival time. The priority is the accumulated elapsed time: an entry with a smaller
  \<open>e\<close> comes first whatever the other key positions are.
\<close>

theorem elapsed_determines_arrival:
  assumes "search_state m f cfg inps st" "P \<in> set (persons st)" "e \<in> set (pq P)"
  shows "entry_arr e = T0 cfg + entry_accum e
         \<and> (\<forall>x. entry_accum e < entry_accum x \<longrightarrow> key_of e < key_of x)"
  using entries_lockstep[OF assms] accum_less_key_less by blast

theorem elapsed_determines_arrival_witness:
  "search_state real_machine ex_feed source_config ex_inputs ex_init
   \<and> ex_B0 \<in> set (persons ex_init)
   \<and> stamp 6 (ex_pushes_B1 ''B'' ! 0) \<in> set (pq ex_B0)
   \<and> entry_accum (stamp 6 (ex_pushes_B1 ''B'' ! 0)) = 30
   \<and> entry_arr (stamp 6 (ex_pushes_B1 ''B'' ! 0)) = T0 source_config + 30
   \<and> entry_accum (stamp 4 (ex_pushes_A1 ''A'' ! 2)) = 900
   \<and> key_of (stamp 6 (ex_pushes_B1 ''B'' ! 0)) < key_of (stamp 4 (ex_pushes_A1 ''A'' ! 2))"
proof -
  let ?e = "stamp 6 (ex_pushes_B1 ''B'' ! 0)"
  let ?x = "stamp 4 (ex_pushes_A1 ''A'' ! 2)"
  have h2: "ex_B0 \<in> set (persons ex_init)" by (simp add: ex_init_def)
  have h3: "?e \<in> set (pq ex_B0)" by (simp add: ex_B0_def ex_pushes_B1_def)
  have a: "entry_accum ?e = 30" "entry_accum ?x = 900"
    by (simp_all add: ex_pushes_B1_def ex_pushes_A1_def entry_simps)
  note inst = elapsed_determines_arrival[OF ex_search_init h2 h3]
  from inst a have arr: "entry_arr ?e = T0 source_config + 30" by simp
  from inst have "entry_accum ?e < entry_accum ?x \<longrightarrow> key_of ?e < key_of ?x" by blast
  with a have "key_of ?e < key_of ?x" by simp
  with ex_search_init h2 h3 a arr show ?thesis by simp
qed

section \<open>The insertion counter\<close>
















lemma person_entries: "P \<in> set (persons st) \<Longrightarrow> e \<in> set (pq P) \<Longrightarrow> e \<in> set (all_entries st)"
  by (auto simp: all_entries_def)

section \<open>Claims about walks\<close>

text \<open>
  C7: every walk edge built from pathways or transfers lasts at least 30 seconds, and so
  does every WALK action that an expansion pushes, whatever its source, for every
  platform, time and machine; the same holds of every WALK entry of every frontier in
  every state of the search. The duration of a GEO walk is \<open>max 30 c\<close>, where \<open>c\<close> is
  what the machine gives for \<open>ceil(d / WALK_SPEED_MPS)\<close> and \<open>d\<close> for the haversine
  distance between the two platforms. A walk arrives its duration after it departs.
\<close>

theorem walk_duration_at_least_30:
  "((to, tt, src) \<in> set (walk_edges f u) \<longrightarrow> 30 \<le> tt)
   \<and> (expansion_pushes m f cur t a ow = Some ps \<and> p \<in> set ps \<and> mode (snd p) = WALK
        \<longrightarrow> (\<exists>w. walk_sec (snd p) = Some w \<and> 30 \<le> w
              \<and> (source (snd p) = Some GEO \<longrightarrow>
                   (\<exists>d q k. stop_distance m f cur (to_stop (snd p)) = Some d
                      \<and> fl_div m d (WALK_SPEED_MPS m) = Some q \<and> fl_ceil m q = Some k
                      \<and> w = max 30 k))))
   \<and> (search_state m f cfg inps st \<and> P \<in> set (persons st) \<and> e \<in> set (pq P)
        \<and> mode (entry_info e) = WALK
        \<longrightarrow> (\<exists>v w. from_stop (entry_info e) = Some v \<and> walk_sec (entry_info e) = Some w
              \<and> 30 \<le> w
              \<and> (source (entry_info e) = Some GEO \<longrightarrow>
                   (\<exists>d q k. stop_distance m f v (to_stop (entry_info e)) = Some d
                      \<and> fl_div m d (WALK_SPEED_MPS m) = Some q \<and> fl_ceil m q = Some k
                      \<and> w = max 30 k))))"
proof (intro conjI impI)
  assume "(to, tt, src) \<in> set (walk_edges f u)"
  then show "30 \<le> tt" by (rule walk_edges_floor)
next
  assume "expansion_pushes m f cur t a ow = Some ps \<and> p \<in> set ps \<and> mode (snd p) = WALK"
  then have h: "expansion_pushes m f cur t a ow = Some ps" "p \<in> set ps" "mode (snd p) = WALK"
    by simp_all
  from expansion_walks[OF h]
  show "\<exists>w. walk_sec (snd p) = Some w \<and> 30 \<le> w
              \<and> (source (snd p) = Some GEO \<longrightarrow>
                   (\<exists>d q k. stop_distance m f cur (to_stop (snd p)) = Some d
                      \<and> fl_div m d (WALK_SPEED_MPS m) = Some q \<and> fl_ceil m q = Some k
                      \<and> w = max 30 k))"
    by blast
next
  assume "search_state m f cfg inps st \<and> P \<in> set (persons st) \<and> e \<in> set (pq P)
        \<and> mode (entry_info e) = WALK"
  then have h: "search_state m f cfg inps st" "P \<in> set (persons st)" "e \<in> set (pq P)"
    "mode (entry_info e) = WALK"
    by simp_all
  from walk_entries[OF h]
  show "\<exists>v w. from_stop (entry_info e) = Some v \<and> walk_sec (entry_info e) = Some w
              \<and> 30 \<le> w
              \<and> (source (entry_info e) = Some GEO \<longrightarrow>
                   (\<exists>d q k. stop_distance m f v (to_stop (entry_info e)) = Some d
                      \<and> fl_div m d (WALK_SPEED_MPS m) = Some q \<and> fl_ceil m q = Some k
                      \<and> w = max 30 k))"
    by blast
qed

lemma ex_distance_B1_A1:
  "stop_distance real_machine ex_feed (IdStr ''B1'') (IdStr ''A1'') = Some 0"
  by (simp add: stop_distance_def ex_stop_lat ex_stop_lon haversine_same)

theorem walk_duration_at_least_30_witness:
  "(IdStr ''A2'', 120, PATHWAYS) \<in> set (walk_edges ex_feed (IdStr ''A1'')) \<and> (30 :: int) \<le> 120
   \<and> expansion_pushes real_machine ex_feed (IdStr ''B1'') 46800 0 ''B''
       = Some (ex_pushes_B1 ''B'')
   \<and> ex_pushes_B1 ''B'' ! 0 \<in> set (ex_pushes_B1 ''B'')
   \<and> mode (snd (ex_pushes_B1 ''B'' ! 0)) = WALK
   \<and> source (snd (ex_pushes_B1 ''B'' ! 0)) = Some GEO
   \<and> walk_sec (snd (ex_pushes_B1 ''B'' ! 0)) = Some 30
   \<and> stop_distance real_machine ex_feed (IdStr ''B1'') (to_stop (snd (ex_pushes_B1 ''B'' ! 0)))
       = Some 0
   \<and> fl_div real_machine 0 (WALK_SPEED_MPS real_machine) = Some 0
   \<and> fl_ceil real_machine 0 = Some 0
   \<and> search_state real_machine ex_feed source_config ex_inputs ex_init
   \<and> ex_B0 \<in> set (persons ex_init)
   \<and> stamp 6 (ex_pushes_B1 ''B'' ! 0) \<in> set (pq ex_B0)
   \<and> mode (entry_info (stamp 6 (ex_pushes_B1 ''B'' ! 0))) = WALK
   \<and> (\<exists>w. walk_sec (entry_info (stamp 6 (ex_pushes_B1 ''B'' ! 0))) = Some w \<and> 30 \<le> w)
   \<and> (\<exists>d q k. stop_distance real_machine ex_feed (IdStr ''B1'')
                  (to_stop (snd (ex_pushes_B1 ''B'' ! 0))) = Some d
          \<and> fl_div real_machine d (WALK_SPEED_MPS real_machine) = Some q
          \<and> fl_ceil real_machine q = Some k \<and> (30 :: int) = max 30 k)"
proof -
  let ?p = "ex_pushes_B1 ''B'' ! 0"
  let ?e = "stamp 6 ?p"
  note inst = walk_duration_at_least_30[where to = "IdStr ''A2''" and tt = 120
      and src = PATHWAYS and f = ex_feed and u = "IdStr ''A1''" and m = real_machine
      and cfg = source_config and inps = ex_inputs and st = ex_init and P = ex_B0 and e = ?e
      and cur = "IdStr ''B1''" and t = 46800 and a = 0 and ow = "''B''"
      and ps = "ex_pushes_B1 ''B''" and p = ?p]
  have e1: "(IdStr ''A2'', 120, PATHWAYS) \<in> set (walk_edges ex_feed (IdStr ''A1''))"
    by (simp add: ex_walk_edges)
  have p1: "?p \<in> set (ex_pushes_B1 ''B'')" by (simp add: ex_pushes_B1_def)
  have p2: "mode (snd ?p) = WALK" "source (snd ?p) = Some GEO" "walk_sec (snd ?p) = Some 30"
    "to_stop (snd ?p) = IdStr ''A1''"
    by (simp_all add: ex_pushes_B1_def walk_info_def)
  have h2: "ex_B0 \<in> set (persons ex_init)" by (simp add: ex_init_def)
  have h3: "?e \<in> set (pq ex_B0)" by (simp add: ex_B0_def ex_pushes_B1_def)
  have h4: "mode (entry_info ?e) = WALK"
    by (simp add: ex_pushes_B1_def walk_info_def entry_simps)
  from inst e1 have c1: "(30 :: int) \<le> 120" by simp
  from inst ex_search_init h2 h3 h4
  have c3: "\<exists>w. walk_sec (entry_info ?e) = Some w \<and> 30 \<le> w" by blast
  from inst ex_expand_B1[of "''B''"] p1 p2
  have c2: "\<exists>d q k. stop_distance real_machine ex_feed (IdStr ''B1'') (to_stop (snd ?p)) = Some d
          \<and> fl_div real_machine d (WALK_SPEED_MPS real_machine) = Some q
          \<and> fl_ceil real_machine q = Some k \<and> (30 :: int) = max 30 k"
    by auto
  have d: "fl_div real_machine 0 (WALK_SPEED_MPS real_machine) = Some 0"
    "fl_ceil real_machine 0 = Some 0"
    by (simp_all add: rm_simps WALK_SPEED_MPS_def)
  show ?thesis
    using e1 c1 ex_expand_B1[of "''B''"] p1 p2 ex_distance_B1_A1 d ex_search_init h2 h3 h4 c3 c2
    by simp
qed

section \<open>Geodesic walks and explicit edges\<close>

text \<open>
  What the code guarantees: \<open>provided_pairs\<close> holds the pairs of the pathway and
  transfer rows that have a time and two stop ids that are true in the sense of
  \<open>if fr and to\<close>, and no expansion pushes a GEO walk over such a pair.
\<close>

lemma no_geo_walk_over_provided_pair:
  assumes "expansion_pushes m f u t a ow = Some ps" "p \<in> set ps" "source (snd p) = Some GEO"
  shows "(u, to_stop (snd p)) \<notin> provided_pairs f"
proof -
  from assms(1,2) consider
    (pw) "p \<in> set (pathway_transfer_pushes f u t a ow)"
  | (geo) g where "geo_pushes m f u t a ow = Some g" "p \<in> set g"
  | (ride) r where "ride_pushes m f u t a ow = Some r" "p \<in> set r"
    by (auto simp: expansion_pushes_mem)
  then show ?thesis
  proof cases
    case pw
    with assms(3) show ?thesis by (auto simp: pathway_transfer_pushes_mem walk_edges_mem)
  next
    case (geo g)
    then obtain cand d ps' where gp: "geo_push m f u t a ow (cand, d) = Some ps'" "p \<in> set ps'"
      by (auto simp: geo_pushes_mem)
    from gp(2) show ?thesis unfolding geo_push_mem[OF gp(1)] by auto
  next
    case (ride r)
    with assms(3) show ?thesis by (auto simp: ride_pushes_mem ride_push_mem)
  qed
qed

lemma id0_stop_lat: "stop_lat id0_feed = [(IdNum 0, 0), (IdNum 5, 0)]"
  by (simp add: stop_lat_def id0_feed_def dict_zip_def)

lemma id0_stop_lon: "stop_lon id0_feed = [(IdNum 0, 0), (IdNum 5, 0)]"
  by (simp add: stop_lon_def id0_feed_def dict_zip_def)

lemma id0_grid:
  "grid real_machine id0_feed = Some (\<lambda>c. if c = (0, 0) then [IdNum 0, IdNum 5] else [])"
proof -
  have c0: "cell_for real_machine 0 0 = Some (0, 0)"
    by (simp add: cell_for_def DLAT_def DLON_def rm_simps)
  show ?thesis
    by (simp add: grid_def grid_add_def id0_stop_lat id0_stop_lon c0 fun_eq_iff)
qed

lemma id0_nearby:
  "nearby_stops_within_radius real_machine id0_feed (IdNum 0) 780 = Some [(IdNum 5, 0)]"
  by (simp add: nearby_eval id0_stop_lat id0_stop_lon id0_grid haversine_same)

lemma id0_provided: "provided_pairs id0_feed = {}"
  by (simp add: provided_pairs_def build_walk_tables_def id0_feed_def add_walk_row_def)

lemma id0_walk_edges: "walk_edges id0_feed = (\<lambda>u. [])"
  by (rule ext) (simp add: walk_edges_def build_walk_tables_def id0_feed_def add_walk_row_def)

lemma id0_rides: "ride_pushes real_machine id0_feed u t a ow = Some []"
  by (simp add: ride_eval id0_feed_def)

lemma id0_expand:
  "expansion_pushes real_machine id0_feed (IdNum 0) 46800 0 ''A'' = Some [id0_geo]"
  by (simp add: geo_eval id0_nearby id0_provided id0_walk_edges id0_rides id0_geo_def
      walk_info_def)

lemma id0_ingest: "ingest_ok real_machine id0_feed"
  by (simp add: ingest_ok_def id0_grid sortable_def) (simp add: id0_feed_def)

lemma id0_init_search:
  "init_search real_machine id0_feed source_config id0_inputs = Some id0_init"
  by (simp add: init_search_def id0_ingest id0_inputs_def init_person_def expand_eq id0_expand
      push_all_eq heappush_def id0_init_def source_config_def numeral_2_eq_2)

text \<open>
  C6 fails in the code: the pathway from platform 0 to platform 5 is an explicit edge of
  the input, but \<open>if fr and to\<close> takes the id 0 for a missing id and drops the row. The
  pair is not marked, no PATHWAYS walk is pushed, and the seeding of a traveller at
  platform 0 pushes a GEO walk from 0 to 5.
\<close>

theorem geo_walk_over_explicit_pair:
  "\<lparr>w_from_stop_id = IdNum 0, w_to_stop_id = IdNum 5, w_time = Some 120\<rparr>
     \<in> set (pathways id0_feed)
   \<and> (IdNum 0, IdNum 5) \<notin> provided_pairs id0_feed
   \<and> walk_edges id0_feed (IdNum 0) = []
   \<and> search_state real_machine id0_feed source_config id0_inputs id0_init
   \<and> (\<exists>P e. P \<in> set (persons id0_init) \<and> e \<in> set (pq P)
         \<and> mode (entry_info e) = WALK \<and> source (entry_info e) = Some GEO
         \<and> from_stop (entry_info e) = Some (IdNum 0) \<and> to_stop (entry_info e) = IdNum 5)"
proof -
  have "search_state real_machine id0_feed source_config id0_inputs id0_init"
    unfolding search_state_def by (rule disjI1, rule head_init, rule id0_init_search)
  moreover have "\<exists>P e. P \<in> set (persons id0_init) \<and> e \<in> set (pq P)
         \<and> mode (entry_info e) = WALK \<and> source (entry_info e) = Some GEO
         \<and> from_stop (entry_info e) = Some (IdNum 0) \<and> to_stop (entry_info e) = IdNum 5"
    by (intro exI[of _ "hd (persons id0_init)"] exI[of _ "stamp 2 id0_geo"])
       (simp add: id0_init_def id0_geo_def walk_info_def entry_simps)
  ultimately show ?thesis
    by (simp add: id0_provided id0_walk_edges) (simp add: id0_feed_def)
qed

section \<open>Rows with unparseable times\<close>

lemma parsed_Some: "parsed m s = Some v \<Longrightarrow> to_seconds m s = Inr (Some v)"
  by (simp add: parsed_def split: sum.splits)

lemma dep_sec_Some: "dep_sec m f r = Some d \<Longrightarrow> \<exists>d0. to_seconds m (st_departure_time r) = Inr (Some d0)"
  by (auto simp: dep_sec_def dest: parsed_Some split: if_splits)

lemma arr_sec_Some: "arr_sec m f r = Some a \<Longrightarrow> \<exists>a0. to_seconds m (st_arrival_time r) = Inr (Some a0)"
  by (auto simp: arr_sec_def dest: parsed_Some split: if_splits)

lemma ride_pushes_rows:
  assumes "ride_pushes m f u t a ow = Some ps" "p \<in> set ps"
  shows "mode (snd p) = RIDE \<and> from_stop (snd p) = Some u \<and> ride_rows m f (snd p)"
proof -
  from assms obtain r1 r2 dep where h: "r1 \<in> set (stop_times f)" "st_stop_id r1 = u"
    "dep_sec m f r1 = Some dep" "r2 \<in> set (stop_times f)" "st_trip_id r2 = st_trip_id r1"
    "seq_after r1 r2" "p \<in> set (ride_push m f u t a ow r1 dep r2)"
    unfolding ride_pushes_mem[OF assms(1)] by blast
  from h(7) obtain arr where arr: "arr_sec m f r2 = Some arr"
    and p: "snd p = \<lparr>owner = ow, mode = RIDE, source = None, from_stop = Some u,
                  to_stop = st_stop_id r2, trip_id = Some (st_trip_id r1),
                  walk_sec = None, wait_sec = Some (dep - t), ride_sec = Some (arr - dep),
                  depart_sec = dep, arrive_sec = arr, distance_m = None\<rparr>"
    by (auto simp: ride_push_mem)
  from dep_sec_Some[OF h(3)] obtain d0 where d0: "to_seconds m (st_departure_time r1) = Inr (Some d0)"
    by blast
  from arr_sec_Some[OF arr] obtain a0 where a0: "to_seconds m (st_arrival_time r2) = Inr (Some a0)"
    by blast
  have "ride_rows m f (snd p)"
    unfolding ride_rows_def
    by (intro exI[of _ r1] exI[of _ r2] exI[of _ d0] exI[of _ a0]) (simp add: p h d0 a0 arr)
  with p show ?thesis by simp
qed

lemma expansion_rides:
  assumes ex: "expansion_pushes m f u t a ow = Some ps" and p: "p \<in> set ps"
    and w: "mode (snd p) = RIDE"
  shows "ride_rows m f (snd p)"
proof -
  from ex p consider
    (pw) "p \<in> set (pathway_transfer_pushes f u t a ow)"
  | (geo) g where "geo_pushes m f u t a ow = Some g" "p \<in> set g"
  | (ride) r where "ride_pushes m f u t a ow = Some r" "p \<in> set r"
    by (auto simp: expansion_pushes_mem)
  then show ?thesis
  proof cases
    case pw
    with w show ?thesis by (auto simp: pathway_transfer_pushes_mem)
  next
    case (geo g)
    then obtain cand d ps' where gp: "geo_push m f u t a ow (cand, d) = Some ps'" "p \<in> set ps'"
      by (auto simp: geo_pushes_mem)
    from gp(2) w show ?thesis unfolding geo_push_mem[OF gp(1)] by auto
  next
    case (ride r)
    then show ?thesis by (simp add: ride_pushes_rows)
  qed
qed

lemma ride_entries:
  assumes "search_state m f cfg inps st" "P \<in> set (persons st)" "e \<in> set (pq P)"
    and "mode (entry_info e) = RIDE"
  shows "ride_rows m f (entry_info e)"
proof -
  have "\<forall>P \<in> set (persons st). \<forall>e \<in> set (pq P).
          mode (entry_info e) = RIDE \<longrightarrow> ride_rows m f (entry_info e)"
    using assms(1)
  proof (rule search_state_entries)
    fix c lbl s
    show "mode (entry_info (stamp c ((0, T0 cfg, s), start_info lbl s (T0 cfg)))) = RIDE
          \<longrightarrow> ride_rows m f (entry_info (stamp c ((0, T0 cfg, s), start_info lbl s (T0 cfg))))"
      by (simp add: entry_simps start_info_simps)
  next
    fix e' :: entry and c p ps
    assume ex: "expansion_pushes m f (to_stop (entry_info e')) (arrive_sec (entry_info e'))
              (entry_accum e') (owner (entry_info e')) = Some ps" and p: "p \<in> set ps"
    obtain a t d i where pe: "p = ((a, t, d), i)" by (metis surj_pair)
    show "mode (entry_info (stamp c p)) = RIDE \<longrightarrow> ride_rows m f (entry_info (stamp c p))"
    proof
      assume "mode (entry_info (stamp c p)) = RIDE"
      with pe have "mode (snd p) = RIDE" by (simp add: entry_simps)
      from expansion_rides[OF ex p this] pe
      show "ride_rows m f (entry_info (stamp c p))" by (simp add: entry_simps)
    qed
  qed
  with assms show ?thesis by blast
qed

lemma indexes_keep_rows:
  assumes "r \<in> set (stop_times f)"
  shows "st_stop_id r \<noteq> IdNaN \<Longrightarrow> r \<in> set (rows_at_stop m f (st_stop_id r))"
    and "st_trip_id r \<noteq> IdNaN
         \<Longrightarrow> \<exists>g. trip_groups f (st_trip_id r) = Some g \<and> r \<in> set g"
  using assms by (auto simp: rows_at_stop_mem trip_groups_def stop_times_sorted_def)

text \<open>The only exception of \<open>to_seconds\<close>: the hour has too many digits for \<open>int\<close>.\<close>

lemma to_seconds_raises:
  assumes "to_seconds m s = Inl err"
  shows "err = ValueError
    \<and> (\<exists>x h m1 sec. s = Some x \<and> split_colon (strip x) = [h, m1, sec] \<and> h \<noteq> []
          \<and> list_all is_digit h \<and> too_many_digits m h)"
  using assms
  by (auto simp: to_seconds_def split: option.splits list.splits if_splits)

lemma is_digit_not_colon: "is_digit c \<Longrightarrow> c \<noteq> CHR '':''"
  by (auto simp: is_digit_def)

lemma is_digit_not_space: "is_digit c \<Longrightarrow> \<not> is_space c"
  by (auto simp: is_digit_def is_space_def)

lemma split_colon_digits:
  "list_all is_digit h \<Longrightarrow> split_colon (h @ CHR '':'' # rest) = h # split_colon rest"
  by (induction h) (auto simp: is_digit_not_colon split: list.splits)

lemma strip_id:
  assumes "s \<noteq> []" "\<not> is_space (hd s)" "\<not> is_space (last s)"
  shows "strip s = s"
proof -
  from assms have 1: "dropWhile is_space s = s" by (cases s) simp_all
  from assms have 2: "dropWhile is_space (rev s) = rev s"
    by (cases "rev s") (simp_all add: last_rev[symmetric] hd_rev)
  show ?thesis by (simp add: strip_def 1 2)
qed

lemma to_seconds_long_hour:
  assumes "h \<noteq> []" "list_all is_digit h" "too_many_digits m h"
  shows "to_seconds m (Some (h @ '':00:00'')) = Inl ValueError"
proof -
  have hd: "\<not> is_space (hd (h @ '':00:00''))"
    using assms(1,2) by (cases h) (simp_all add: is_digit_not_space)
  have "\<not> is_space (last (h @ '':00:00''))" by (simp add: is_space_def)
  with hd have st: "strip (h @ '':00:00'') = h @ '':00:00''" by (intro strip_id) simp_all
  have sp: "split_colon (h @ '':00:00'') = [h, ''00'', ''00'']"
    using split_colon_digits[OF assms(2), of "''00:00''"] by simp
  show ?thesis
    using assms by (simp add: to_seconds_def st sp is_digit_def)
qed

lemma long_hour_raises: "to_seconds real_machine (Some long_hour) = Inl ValueError"
  unfolding long_hour_def
  by (rule to_seconds_long_hour)
     (simp_all add: too_many_digits_def rm_simps list_all_iff is_digit_def)

lemma long_hour_no_ingest: "\<not> ingest_ok real_machine long_hour_feed"
  by (simp add: ingest_ok_def long_hour_feed_def long_hour_raises)

text \<open>
  C8, as stated, says that a row with an unparseable time is excluded from indexing and
  never aborts the ingest. In the worked example the first row of the trip has no arrival
  time; it is in the index of its platform and of its trip all the same, and the ride
  from that platform boards at it. And a time whose hour has 4301 digits matches the
  pattern of \<open>to_seconds\<close>, \<open>int\<close> raises ValueError on it, and the ingest of a feed
  with such a row does not complete.
\<close>

theorem malformed_row_excluded_counterexample:
  "to_seconds real_machine (st_arrival_time (hd (stop_times ex_feed))) = Inr None
   \<and> hd (stop_times ex_feed) \<in> set (stop_times ex_feed)
   \<and> hd (stop_times ex_feed) \<in> set (rows_at_stop real_machine ex_feed (IdStr ''A1''))
   \<and> (\<exists>g. trip_groups ex_feed (IdStr ''T1'') = Some g \<and> hd (stop_times ex_feed) \<in> set g)
   \<and> ride_pushes real_machine ex_feed (IdStr ''A1'') 46800 0 ''A'' = Some [ex_pushes_A1 ''A'' ! 2]
   \<and> mode (snd (ex_pushes_A1 ''A'' ! 2)) = RIDE
   \<and> depart_sec (snd (ex_pushes_A1 ''A'' ! 2)) = 47100
   \<and> to_seconds real_machine (st_departure_time (hd (stop_times ex_feed))) = Inr (Some 47100)
   \<and> to_seconds real_machine (Some long_hour) = Inl ValueError
   \<and> \<not> ingest_ok real_machine long_hour_feed
   \<and> init_search real_machine long_hour_feed source_config ex_inputs = None"
proof -
  have r: "hd (stop_times ex_feed) \<in> set (stop_times ex_feed)"
    "st_stop_id (hd (stop_times ex_feed)) = IdStr ''A1''"
    "st_trip_id (hd (stop_times ex_feed)) = IdStr ''T1''"
    by (simp_all add: ex_feed_def)
  have t: "to_seconds real_machine (st_arrival_time (hd (stop_times ex_feed))) = Inr None"
    "to_seconds real_machine (st_departure_time (hd (stop_times ex_feed))) = Inr (Some 47100)"
    by (simp_all add: ex_feed_def time_eval)
  have i1: "hd (stop_times ex_feed) \<in> set (rows_at_stop real_machine ex_feed (IdStr ''A1''))"
    using indexes_keep_rows(1)[OF r(1), of real_machine] r(2) by simp
  have i2: "\<exists>g. trip_groups ex_feed (IdStr ''T1'') = Some g \<and> hd (stop_times ex_feed) \<in> set g"
    using indexes_keep_rows(2)[OF r(1)] r(3) by simp
  have p: "mode (snd (ex_pushes_A1 ''A'' ! 2)) = RIDE"
    "depart_sec (snd (ex_pushes_A1 ''A'' ! 2)) = 47100"
    by (simp_all add: ex_pushes_A1_def)
  show ?thesis
    using r(1) t i1 i2 p ex_rides_A1[of "''A''"] long_hour_raises long_hour_no_ingest
    by (simp add: init_search_def)
qed

text \<open>
  C8, amended: every RIDE action that \<open>enqueue_rides\<close> pushes, and every RIDE entry of
  every frontier, boards at a row whose departure time parses and ends at a later row of
  the same trip whose arrival time parses; so a row with a missing or unparseable arrival
  time is never a ride terminus and a row with a missing or unparseable departure time is
  never a boarding row. Such a row is not excluded from indexing: every row with a
  platform id is in the index of its platform, and every row with a trip id in the group
  of its trip, whatever its times are. A time that does not match the pattern gives
  \<open>None\<close>; \<open>to_seconds\<close> raises only on a time that matches the pattern with an hour of
  more digits than \<open>int\<close> converts, and that is a ValueError.
\<close>

theorem malformed_rows_skipped:
  "(ride_pushes m f u t a ow = Some ps \<and> p \<in> set ps \<longrightarrow> ride_rows m f (snd p))
   \<and> (search_state m f cfg inps st \<and> P \<in> set (persons st) \<and> e \<in> set (pq P)
        \<and> mode (entry_info e) = RIDE \<longrightarrow> ride_rows m f (entry_info e))
   \<and> (r \<in> set (stop_times f) \<and> st_stop_id r \<noteq> IdNaN
        \<longrightarrow> r \<in> set (rows_at_stop m f (st_stop_id r)))
   \<and> (r \<in> set (stop_times f) \<and> st_trip_id r \<noteq> IdNaN
        \<longrightarrow> (\<exists>g. trip_groups f (st_trip_id r) = Some g \<and> r \<in> set g))
   \<and> (to_seconds m s = Inl err
        \<longrightarrow> err = ValueError
            \<and> (\<exists>x h m1 sec. s = Some x \<and> split_colon (strip x) = [h, m1, sec] \<and> h \<noteq> []
                  \<and> list_all is_digit h \<and> too_many_digits m h))"
  using ride_pushes_rows[of m f u t a ow ps p] ride_entries[of m f cfg inps st P e]
    indexes_keep_rows(1)[of r f m] indexes_keep_rows(2)[of r f] to_seconds_raises[of m s err]
  by blast

theorem malformed_rows_skipped_witness:
  "ride_pushes real_machine ex_feed (IdStr ''A1'') 46800 0 ''A'' = Some [ex_pushes_A1 ''A'' ! 2]
   \<and> ex_pushes_A1 ''A'' ! 2 \<in> set [ex_pushes_A1 ''A'' ! 2]
   \<and> ride_rows real_machine ex_feed (snd (ex_pushes_A1 ''A'' ! 2))
   \<and> search_state real_machine ex_feed source_config ex_inputs ex_init
   \<and> ex_A0 \<in> set (persons ex_init)
   \<and> stamp 4 (ex_pushes_A1 ''A'' ! 2) \<in> set (pq ex_A0)
   \<and> mode (entry_info (stamp 4 (ex_pushes_A1 ''A'' ! 2))) = RIDE
   \<and> ride_rows real_machine ex_feed (entry_info (stamp 4 (ex_pushes_A1 ''A'' ! 2)))
   \<and> hd (stop_times ex_feed) \<in> set (stop_times ex_feed)
   \<and> st_stop_id (hd (stop_times ex_feed)) \<noteq> IdNaN
   \<and> st_trip_id (hd (stop_times ex_feed)) \<noteq> IdNaN
   \<and> hd (stop_times ex_feed) \<in> set (rows_at_stop real_machine ex_feed (IdStr ''A1''))
   \<and> (\<exists>g. trip_groups ex_feed (IdStr ''T1'') = Some g \<and> hd (stop_times ex_feed) \<in> set g)
   \<and> to_seconds real_machine (Some long_hour) = Inl ValueError
   \<and> (\<exists>h m1 sec. split_colon (strip long_hour) = [h, m1, sec]
         \<and> too_many_digits real_machine h)"
proof -
  let ?p = "ex_pushes_A1 ''A'' ! 2"
  let ?e = "stamp 4 ?p"
  let ?r = "hd (stop_times ex_feed)"
  note inst = malformed_rows_skipped[where m = real_machine and f = ex_feed
      and u = "IdStr ''A1''" and t = 46800 and a = 0 and ow = "''A''" and ps = "[?p]" and p = ?p
      and cfg = source_config and inps = ex_inputs and st = ex_init and P = ex_A0 and e = ?e
      and r = ?r and s = "Some long_hour" and err = ValueError]
  have h2: "ex_A0 \<in> set (persons ex_init)" by (simp add: ex_init_def)
  have h3: "?e \<in> set (pq ex_A0)" by (simp add: ex_A0_def ex_pushes_A1_def)
  have h4: "mode (entry_info ?e) = RIDE" by (simp add: ex_pushes_A1_def entry_simps)
  have r: "?r \<in> set (stop_times ex_feed)" "st_stop_id ?r = IdStr ''A1''"
    "st_trip_id ?r = IdStr ''T1''"
    by (simp_all add: ex_feed_def)
  from inst ex_rides_A1[of "''A''"] have c1: "ride_rows real_machine ex_feed (snd ?p)" by simp
  from inst ex_search_init h2 h3 h4 have c2: "ride_rows real_machine ex_feed (entry_info ?e)"
    by blast
  from inst r have c3: "?r \<in> set (rows_at_stop real_machine ex_feed (IdStr ''A1''))"
    "\<exists>g. trip_groups ex_feed (IdStr ''T1'') = Some g \<and> ?r \<in> set g"
    by auto
  from inst long_hour_raises
  have c4: "\<exists>h m1 sec. split_colon (strip long_hour) = [h, m1, sec]
         \<and> too_many_digits real_machine h"
    by auto
  show ?thesis
    using ex_rides_A1[of "''A''"] c1 ex_search_init h2 h3 h4 c2 r c3 long_hour_raises c4
    by simp
qed

section \<open>The destinations of the entries\<close>








section \<open>Comparing two entries\<close>








section \<open>Claim about the insertion counter\<close>














end
